theory Spec2Isabelle
  imports Complex_Main "HOL-Library.Char_ord" "HOL-Library.List_Lexorder"
    "HOL-Library.Product_Lexorder"
begin

section \<open>Python values, errors and the random stream\<close>

text \<open>
  The two scripts \<^verbatim>\<open>generate_setcover_data.py\<close> and
  \<^verbatim>\<open>generate_crewscheduling_data.py\<close> are embedded function by function.
  Python's unbounded \<^verbatim>\<open>int\<close> is \<^typ>\<open>int\<close>, \<^verbatim>\<open>float\<close> is idealised as
  \<^typ>\<open>real\<close>, a \<^verbatim>\<open>str\<close> is the \<^typ>\<open>string\<close> of its UTF-8 bytes (an injective
  rendering of the code points, so equality, concatenation and ordering agree), a
  dict with fixed keys is a record, and every exception the interpreter can raise in
  these functions is a value of \<open>py_error\<close>.
\<close>

datatype py_error = ValueError | IndexError | ZeroDivisionError | UnicodeEncodeError

text \<open>
  The module-level generator of \<^verbatim>\<open>random\<close> is the only hidden state. It is an
  arbitrary infinite sequence of raw draws together with the number of draws made
  so far; nothing is assumed about the values, so every statement proved for all
  generators covers the Mersenne Twister sequence of any seed. The counter makes
  "no randomness was consumed" observable.
\<close>

record rng =
  seq :: "nat \<Rightarrow> nat"
  pos :: nat

text \<open>A computation over a state \<open>'s\<close> that returns a value or raises.\<close>

type_synonym ('a, 's) py = "'s \<Rightarrow> (py_error + 'a) \<times> 's"

definition sreturn :: "'a \<Rightarrow> ('a, 's) py" where
  "sreturn x = (\<lambda>s. (Inr x, s))"

definition sbind :: "('a, 's) py \<Rightarrow> ('a \<Rightarrow> ('b, 's) py) \<Rightarrow> ('b, 's) py" where
  "sbind m f = (\<lambda>s. case m s of (Inl e, s') \<Rightarrow> (Inl e, s') | (Inr x, s') \<Rightarrow> f x s')"

text \<open>
  \<^verbatim>\<open>Random._randbelow(n)\<close> for \<open>n > 0\<close>: a value below \<open>n\<close>. CPython may use
  several raw words for it (rejection sampling); the model counts it as one draw.
\<close>

definition randbelow :: "nat \<Rightarrow> rng \<Rightarrow> nat \<times> rng" where
  "randbelow n r = (seq r (pos r) mod n, r\<lparr>pos := pos r + 1\<rparr>)"

text \<open>\<^verbatim>\<open>random.randint(a, b)\<close>: \<^verbatim>\<open>ValueError\<close> on an empty range.\<close>

definition randint :: "int \<Rightarrow> int \<Rightarrow> (int, rng) py" where
  "randint a b r =
     (if b < a then (Inl ValueError, r)
      else (let (k, r') = randbelow (nat (b - a + 1)) r in (Inr (a + int k), r')))"

text \<open>\<^verbatim>\<open>random.choice(seq)\<close>: \<^verbatim>\<open>IndexError\<close> on an empty sequence, before any draw.\<close>

definition choice :: "'a list \<Rightarrow> ('a, rng) py" where
  "choice xs r =
     (if xs = [] then (Inl IndexError, r)
      else (let (i, r') = randbelow (length xs) r in (Inr (xs ! i), r')))"

text \<open>
  \<^verbatim>\<open>random.sample(population, k)\<close>: \<^verbatim>\<open>ValueError\<close> unless \<open>0 \<le> k \<le> n\<close>;
  otherwise \<open>k\<close> elements at \<open>k\<close> different positions of the population. The
  selection is CPython's pool loop,
  \<^verbatim>\<open>j = randbelow(n - i); result[i] = pool[j]; pool[j] = pool[n - i - 1]\<close>,
  one draw per element. (For a population much larger than \<open>k\<close> CPython tracks
  the chosen positions in a set instead; the contract is the same.)
\<close>

fun sample_pool :: "'a list \<Rightarrow> nat \<Rightarrow> rng \<Rightarrow> 'a list \<times> rng" where
  "sample_pool pool 0 r = ([], r)"
| "sample_pool pool (Suc k) r =
     (let (j, r1) = randbelow (length pool) r;
          x = pool ! j;
          (xs, r2) = sample_pool (butlast (pool[j := last pool])) k r1
      in (x # xs, r2))"

definition sample :: "'a list \<Rightarrow> int \<Rightarrow> ('a list, rng) py" where
  "sample population k r =
     (if k < 0 \<or> int (length population) < k then (Inl ValueError, r)
      else (let (xs, r') = sample_pool population (nat k) r in (Inr xs, r')))"

text \<open>
  \<^verbatim>\<open>random.random()\<close> is a 53-bit fraction in \<open>[0, 1)\<close> and
  \<^verbatim>\<open>random.uniform(a, b)\<close> is \<^verbatim>\<open>a + (b - a) * random()\<close>.
\<close>

definition random :: "rng \<Rightarrow> real \<times> rng" where
  "random r = (real (seq r (pos r) mod 2 ^ 53) / 2 ^ 53, r\<lparr>pos := pos r + 1\<rparr>)"

definition uniform :: "real \<Rightarrow> real \<Rightarrow> rng \<Rightarrow> real \<times> rng" where
  "uniform a b r = (let (u, r') = random r in (a + (b - a) * u, r'))"

subsection \<open>Formatting integers and characters\<close>

definition digit_char :: "nat \<Rightarrow> char" where
  "digit_char d = ''0123456789'' ! d"

function str_nat :: "nat \<Rightarrow> string" where
  "str_nat n = (if n < 10 then [digit_char n] else str_nat (n div 10) @ [digit_char (n mod 10)])"
  by pat_completeness auto
termination
  by (relation "measure id") auto

declare str_nat.simps [simp del]

text \<open>\<^verbatim>\<open>str(i)\<close> / \<^verbatim>\<open>f"{i}"\<close> for an int.\<close>

definition str_int :: "int \<Rightarrow> string" where
  "str_int i = (if i < 0 then CHR ''-'' # str_nat (nat (- i)) else str_nat (nat i))"

text \<open>\<^verbatim>\<open>f"{i:02d}"\<close> for a non-negative int: zero-padded to width two.\<close>

definition fmt_02d :: "nat \<Rightarrow> string" where
  "fmt_02d n = (let s = str_nat n in replicate (2 - length s) CHR ''0'' @ s)"

text \<open>The UTF-8 bytes of a code point, and \<^verbatim>\<open>chr\<close>, which raises above U+10FFFF.\<close>

definition utf8 :: "nat \<Rightarrow> string" where
  "utf8 c =
     (if c < 128 then [char_of c]
      else if c < 2048 then [char_of (192 + c div 64), char_of (128 + c mod 64)]
      else if c < 65536 then
        [char_of (224 + c div 4096), char_of (128 + c div 64 mod 64), char_of (128 + c mod 64)]
      else
        [char_of (240 + c div 262144), char_of (128 + c div 4096 mod 64),
         char_of (128 + c div 64 mod 64), char_of (128 + c mod 64)])"

definition py_chr :: "nat \<Rightarrow> py_error + string" where
  "py_chr c = (if c < 1114112 then Inr (utf8 c) else Inl ValueError)"

text \<open>
  \<^verbatim>\<open>chr\<close> also returns the lone surrogates U+D800 to U+DFFF, which a Python
  \<^verbatim>\<open>str\<close> can hold and which the UTF-8 codec refuses when the text is written.
  In the bytes above a surrogate is the lead byte \<open>0xED\<close> followed by a byte from
  \<open>0xA0\<close> on; no other code point gives that pair.
\<close>

fun has_surrogate :: "string \<Rightarrow> bool" where
  "has_surrogate (a # b # cs) =
     ((of_char a = (237::nat) \<and> 160 \<le> (of_char b :: nat)) \<or> has_surrogate (b # cs))"
| "has_surrogate cs = False"

section \<open>Set cover: \<^verbatim>\<open>generate_setcover_data.py\<close>\<close>

definition MIN_CALORIES :: int where "MIN_CALORIES = 2000"
definition MAX_CALORIES :: int where "MAX_CALORIES = 2500"
definition MIN_NUTRIENTS_PER_FOOD :: int where "MIN_NUTRIENTS_PER_FOOD = 3"
definition MAX_NUTRIENT_FRACTION :: real where "MAX_NUTRIENT_FRACTION = 0.2"
definition MAX_NUTRIENT_UPPER_LIMIT :: int where "MAX_NUTRIENT_UPPER_LIMIT = 10"

definition prefixes :: "string list" where
  "prefixes = [''Vitamin'', ''Mineral'', ''Protein'', ''Fiber'', ''Omega'',
               ''Amino'', ''Enzyme'', ''Antioxidant'', ''Electrolyte'', ''Nutrient'']"

text \<open>The body of the loop of \<^verbatim>\<open>generate_universe\<close> at index \<open>i\<close>.\<close>

definition nutrient_name :: "nat \<Rightarrow> py_error + string" where
  "nutrient_name i =
     (let prefix = prefixes ! (i mod length prefixes);
          index = (i mod length prefixes) + 1
      in case (if length prefixes \<le> i then py_chr (of_char CHR ''A'' + i div length prefixes)
               else Inr [])
         of Inl e \<Rightarrow> Inl e
          | Inr suffix \<Rightarrow> Inr (prefix @ suffix @ str_nat index))"

fun universe_loop :: "nat list \<Rightarrow> string list \<Rightarrow> py_error + string list" where
  "universe_loop [] nutrients = Inr nutrients"
| "universe_loop (i # is) nutrients =
     (case nutrient_name i of
        Inl e \<Rightarrow> Inl e
      | Inr nm \<Rightarrow> universe_loop is (nutrients @ [nm]))"

definition generate_universe :: "int \<Rightarrow> py_error + string list" where
  "generate_universe num_nutrients = universe_loop [0..<nat num_nutrients] []"

text \<open>
  The naming rule as the specification words it: the suffix of cycle \<open>k \<ge> 1\<close> is
  \<^verbatim>\<open>chr('A' + k - 1)\<close>.
\<close>

definition spec_nutrient_name :: "nat \<Rightarrow> string" where
  "spec_nutrient_name i =
     prefixes ! (i mod 10)
     @ (if 1 \<le> i div 10 then [char_of (of_char CHR ''A'' + i div 10 - 1 :: nat)] else [])
     @ str_nat (i mod 10 + 1)"


record food =
  name :: string
  calories :: int
  nutrients :: "string list"

definition food_types :: "string list" where
  "food_types =
     [''Apple'', ''Banana'', ''Carrot'', ''Spinach'', ''Chicken'', ''Beef'', ''Salmon'',
      ''Rice'', ''Pasta'', ''Bread'', ''Milk'', ''Cheese'', ''Yogurt'', ''Eggs'', ''Tofu'',
      ''Broccoli'', ''Tomato'', ''Potato'', ''Orange'', ''Grape'', ''Lettuce'', ''Onion'',
      ''Garlic'', ''Pepper'', ''Corn'', ''Beans'', ''Lentils'', ''Almonds'', ''Walnuts'']"

definition generate_food_item :: "int \<Rightarrow> string list \<Rightarrow> int \<Rightarrow> int \<Rightarrow> (food, rng) py" where
  "generate_food_item food_id universe min_nutrients max_nutrients =
     sbind (randint MIN_CALORIES MAX_CALORIES) (\<lambda>cal.
     sbind (randint min_nutrients max_nutrients) (\<lambda>num_nutrients.
     sbind (sample universe (min num_nutrients (int (length universe)))) (\<lambda>nuts.
     sbind (choice food_types) (\<lambda>food_type.
     sreturn \<lparr>name = food_type @ ''_'' @ str_int food_id, calories = cal, nutrients = nuts\<rparr>))))"

text \<open>
  \<^verbatim>\<open>calculate_max_calories\<close>. The draw comes before the division, so an empty
  food list raises \<^verbatim>\<open>ZeroDivisionError\<close> after one draw.
\<close>

definition calculate_max_calories :: "food list \<Rightarrow> string list \<Rightarrow> (real, rng) py" where
  "calculate_max_calories food_items universe r =
     (let total_calories = sum_list (map calories food_items);
          (fraction, r') = uniform 0.4 0.6 r;
          max_calories = real_of_int total_calories * fraction;
          min_foods_estimate = int (length universe) div 3 + 1
      in if food_items = [] then (Inl ZeroDivisionError, r')
         else (let avg_calories = real_of_int total_calories / real (length food_items);
                   min_needed = real_of_int min_foods_estimate * avg_calories
               in (Inr (max max_calories min_needed), r')))"

text \<open>
  \<^verbatim>\<open>ensure_coverage\<close> mutates the food dicts in place, so the model returns the
  food list next to the result, also when \<^verbatim>\<open>random.choice\<close> raises. The foods are
  separate objects (as \<^verbatim>\<open>generate_test_file\<close> builds them): appending to one
  changes no other.

  \<^verbatim>\<open>uncovered\<close> is a Python \<^verbatim>\<open>set\<close> of strings. The order in which
  \<^verbatim>\<open>for nutrient in uncovered\<close> visits it is fixed by the string hashes, which the
  interpreter salts per process; it is no function of the random seed. The model
  takes it as the parameter \<open>set_iter\<close>, which lists the elements of a set given by
  some listing of them.
\<close>

definition set_order :: "('a list \<Rightarrow> 'a list) \<Rightarrow> bool" where
  "set_order set_iter \<longleftrightarrow> (\<forall>xs. distinct xs \<longrightarrow> distinct (set_iter xs) \<and> set (set_iter xs) = set xs)"

fun add_uncovered :: "string list \<Rightarrow> food list \<Rightarrow> rng \<Rightarrow> (py_error + unit) \<times> food list \<times> rng" where
  "add_uncovered [] food_items r = (Inr (), food_items, r)"
| "add_uncovered (nutrient # rest) food_items r =
     (case choice [0..<length food_items] r of
        (Inl e, r') \<Rightarrow> (Inl e, food_items, r')
      | (Inr j, r') \<Rightarrow>
          add_uncovered rest
            (food_items[j := (food_items ! j)\<lparr>nutrients := nutrients (food_items ! j) @ [nutrient]\<rparr>]) r')"

definition ensure_coverage ::
  "(string list \<Rightarrow> string list) \<Rightarrow> food list \<Rightarrow> string list \<Rightarrow> rng
     \<Rightarrow> (py_error + unit) \<times> food list \<times> rng" where
  "ensure_coverage set_iter food_items universe r =
     (let covered = set (concat (map nutrients food_items));
          uncovered = set_iter [n \<leftarrow> remdups universe. n \<notin> covered]
      in add_uncovered uncovered food_items r)"

text \<open>\<^verbatim>\<open>int(x)\<close> on a float truncates towards zero.\<close>

definition py_int :: "real \<Rightarrow> int" where
  "py_int x = (if 0 \<le> x then \<lfloor>x\<rfloor> else \<lceil>x\<rceil>)"

fun generate_food_items ::
  "int list \<Rightarrow> string list \<Rightarrow> int \<Rightarrow> int \<Rightarrow> food list \<Rightarrow> (food list, rng) py" where
  "generate_food_items [] universe min_nutrients max_nutrients food_items = sreturn food_items"
| "generate_food_items (i # is) universe min_nutrients max_nutrients food_items =
     sbind (generate_food_item (i + 1) universe min_nutrients max_nutrients) (\<lambda>food.
     generate_food_items is universe min_nutrients max_nutrients (food_items @ [food]))"

text \<open>
  What \<^verbatim>\<open>generate_test_file\<close> writes: the universe line, the budget line and one
  line per food. The file system is a map from paths to contents. The data directory
  exists (\<^verbatim>\<open>main\<close> creates it) and the disk takes the bytes, so \<^verbatim>\<open>open\<close> succeeds
  and leaves the file created and empty; it runs only after the whole dataset is in
  memory. The text is encoded as UTF-8 when it is written (the encoding that
  \<^verbatim>\<open>open\<close> takes under a UTF-8 locale): the first
  \<^verbatim>\<open>f.write\<close>, of the universe line, raises \<^verbatim>\<open>UnicodeEncodeError\<close> when a
  nutrient name holds a surrogate, and the file stays empty. Every later line is made
  of ASCII text and of nutrient names of the universe, so it is written if the first
  line is.
\<close>

record setcover_file =
  file_universe :: "string list"
  file_max_calories :: real
  file_foods :: "food list"

datatype 'a file_content = Truncated | Complete 'a

definition DATA_DIR :: string where "DATA_DIR = ''data''"
definition RANDOM_SEED :: int where "RANDOM_SEED = 42"

definition setcover_generate_test_file ::
  "(string list \<Rightarrow> string list) \<Rightarrow> int \<Rightarrow> int \<Rightarrow> (string \<rightharpoonup> setcover_file file_content) \<Rightarrow> rng
     \<Rightarrow> (py_error + string \<times> int \<times> int) \<times> (string \<rightharpoonup> setcover_file file_content) \<times> rng" where
  "setcover_generate_test_file set_iter num_foods num_nutrients fs r =
     (case generate_universe num_nutrients of
        Inl e \<Rightarrow> (Inl e, fs, r)
      | Inr universe \<Rightarrow>
     (let min_nutrients = MIN_NUTRIENTS_PER_FOOD;
          max_nutrients = max MAX_NUTRIENT_UPPER_LIMIT
                              (py_int (real_of_int num_nutrients * MAX_NUTRIENT_FRACTION))
      in case generate_food_items (map int [0..<nat num_foods]) universe
                min_nutrients max_nutrients [] r of
        (Inl e, r1) \<Rightarrow> (Inl e, fs, r1)
      | (Inr sampled, r1) \<Rightarrow>
     (case ensure_coverage set_iter sampled universe r1 of
        (Inl e, food_items, r2) \<Rightarrow> (Inl e, fs, r2)
      | (Inr u, food_items, r2) \<Rightarrow>
     (case calculate_max_calories food_items universe r2 of
        (Inl e, r3) \<Rightarrow> (Inl e, fs, r3)
      | (Inr max_calories, r3) \<Rightarrow>
     (let filename = ''setcover_f'' @ str_int num_foods @ ''_n'' @ str_int num_nutrients @ ''.csv'';
          filepath = DATA_DIR @ ''/'' @ filename
      in if list_ex has_surrogate universe
         then (Inl UnicodeEncodeError, fs(filepath \<mapsto> Truncated), r3)
         else (Inr (filename, num_foods, num_nutrients),
               fs(filepath \<mapsto> Complete \<lparr>file_universe = universe,
                                             file_max_calories = max_calories,
                                             file_foods = food_items\<rparr>),
               r3))))))"




section \<open>Crew scheduling: \<^verbatim>\<open>generate_crewscheduling_data.py\<close>\<close>

definition MIN_FLIGHT_DURATION :: int where "MIN_FLIGHT_DURATION = 60"
definition MAX_FLIGHT_DURATION :: int where "MAX_FLIGHT_DURATION = 600"
definition TIME_HORIZON :: int where "TIME_HORIZON = 10000"

definition airport_codes :: "string list" where
  "airport_codes =
     [''JFK'', ''LAX'', ''ORD'', ''DFW'', ''DEN'', ''SFO'', ''SEA'', ''LAS'', ''MCO'', ''EWR'',
      ''CLT'', ''PHX'', ''IAH'', ''MIA'', ''BOS'', ''MSP'', ''FLL'', ''DTW'', ''PHL'', ''LGA'',
      ''BWI'', ''SLC'', ''SAN'', ''DCA'', ''IAD'', ''MDW'', ''TPA'', ''PDX'', ''STL'', ''HNL'',
      ''AUS'', ''BNA'', ''OAK'', ''MSY'', ''RDU'', ''SJC'', ''SMF'', ''SNA'', ''PIT'', ''CVG'',
      ''CMH'', ''IND'', ''MCI'', ''BDL'', ''BUF'', ''OMA'', ''ONT'', ''ANC'', ''ABQ'', ''TUS'']"

definition generate_airports :: "int \<Rightarrow> string list" where
  "generate_airports num_airports =
     map (\<lambda>i. if i < length airport_codes then airport_codes ! i else ''AP'' @ fmt_02d (i + 1))
         [0..<nat num_airports]"

record flight =
  departure_airport :: string
  arrival_airport :: string
  departure_time :: int
  arrival_time :: int

text \<open>The body of the sampling loop of \<^verbatim>\<open>generate_flight_schedule\<close>.\<close>

definition sample_flight :: "string list \<Rightarrow> (flight, rng) py" where
  "sample_flight airports =
     sbind (choice airports) (\<lambda>dep_airport.
     sbind (choice [a \<leftarrow> airports. a \<noteq> dep_airport]) (\<lambda>arr_airport.
     sbind (randint 0 (TIME_HORIZON - MAX_FLIGHT_DURATION)) (\<lambda>dep_time.
     sbind (randint MIN_FLIGHT_DURATION MAX_FLIGHT_DURATION) (\<lambda>duration.
     sreturn \<lparr>departure_airport = dep_airport, arrival_airport = arr_airport,
              departure_time = dep_time, arrival_time = dep_time + duration\<rparr>))))"

fun schedule_loop :: "nat \<Rightarrow> string list \<Rightarrow> flight list \<Rightarrow> (flight list, rng) py" where
  "schedule_loop 0 airports flights = sreturn flights"
| "schedule_loop (Suc n) airports flights =
     sbind (sample_flight airports) (\<lambda>f. schedule_loop n airports (flights @ [f]))"

text \<open>\<^verbatim>\<open>list.sort\<close> is stable, as \<^const>\<open>sort_key\<close> is; tuples compare lexicographically.\<close>

definition generate_flight_schedule :: "string list \<Rightarrow> int \<Rightarrow> (flight list, rng) py" where
  "generate_flight_schedule airports num_flights =
     sbind (schedule_loop (nat num_flights) airports []) (\<lambda>flights.
     sreturn (sort_key (\<lambda>f. (departure_time f, departure_airport f)) flights))"

text \<open>
  \<^verbatim>\<open>ensure_connectivity\<close> appends to the caller's list, so the model returns the
  list next to the result, also when \<^verbatim>\<open>random.choice\<close> raises.
  \<^verbatim>\<open>has_departure\<close> is computed once, before the loop over the airports.
\<close>

definition repair_flight :: "string list \<Rightarrow> string \<Rightarrow> (flight, rng) py" where
  "repair_flight airports airport =
     sbind (choice [a \<leftarrow> airports. a \<noteq> airport]) (\<lambda>other_airport.
     sbind (randint 0 (TIME_HORIZON - MAX_FLIGHT_DURATION)) (\<lambda>dep_time.
     sbind (randint MIN_FLIGHT_DURATION MAX_FLIGHT_DURATION) (\<lambda>duration.
     sreturn \<lparr>departure_airport = airport, arrival_airport = other_airport,
              departure_time = dep_time, arrival_time = dep_time + duration\<rparr>)))"

fun connect_loop ::
  "string list \<Rightarrow> string list \<Rightarrow> string set \<Rightarrow> flight list \<Rightarrow> rng
     \<Rightarrow> (py_error + unit) \<times> flight list \<times> rng" where
  "connect_loop [] airports has_departure flights r = (Inr (), flights, r)"
| "connect_loop (airport # rest) airports has_departure flights r =
     (if airport \<notin> has_departure then
        (case repair_flight airports airport r of
           (Inl e, r') \<Rightarrow> (Inl e, flights, r')
         | (Inr f, r') \<Rightarrow> connect_loop rest airports has_departure (flights @ [f]) r')
      else connect_loop rest airports has_departure flights r)"

definition ensure_connectivity ::
  "string list \<Rightarrow> flight list \<Rightarrow> rng \<Rightarrow> (py_error + unit) \<times> flight list \<times> rng" where
  "ensure_connectivity airports flights r =
     (let has_departure = set (map departure_airport flights)
      in connect_loop airports airports has_departure flights r)"

text \<open>
  The crew-scheduling file holds the airport line and one line per flight. Airport
  codes are ASCII (\<open>generate_airports_ascii\<close> below), as are the numbers, so
  encoding cannot fail and the file is written whole.
\<close>

record crew_file =
  file_airports :: "string list"
  file_flights :: "flight list"

definition crew_generate_test_file ::
  "int \<Rightarrow> int \<Rightarrow> (string \<rightharpoonup> crew_file) \<Rightarrow> rng
     \<Rightarrow> (py_error + string \<times> int \<times> int) \<times> (string \<rightharpoonup> crew_file) \<times> rng" where
  "crew_generate_test_file num_airports num_flights fs r =
     (let airports = generate_airports num_airports
      in case generate_flight_schedule airports num_flights r of
        (Inl e, r1) \<Rightarrow> (Inl e, fs, r1)
      | (Inr sampled, r1) \<Rightarrow>
     (case ensure_connectivity airports sampled r1 of
        (Inl e, flights, r2) \<Rightarrow> (Inl e, fs, r2)
      | (Inr u, flights, r2) \<Rightarrow>
     (let filename = ''crewscheduling_a'' @ str_int num_airports @ ''_f''
                       @ str_int num_flights @ ''.csv'';
          filepath = DATA_DIR @ ''/'' @ filename
      in (Inr (filename, num_airports, int (length flights)),
          fs(filepath \<mapsto> \<lparr>file_airports = airports, file_flights = flights\<rparr>),
          r2))))"

definition crew_TEST_CONFIGS :: "(int \<times> int) list" where
  "crew_TEST_CONFIGS =
     [(3, 10), (5, 20), (5, 50), (10, 100), (10, 200), (15, 500), (20, 1000), (25, 2000)]"

fun crew_main_loop ::
  "(int \<times> int) list \<Rightarrow> (string \<times> int \<times> int) list \<Rightarrow> (string \<rightharpoonup> crew_file) \<Rightarrow> rng
     \<Rightarrow> (py_error + (string \<times> int \<times> int) list) \<times> (string \<rightharpoonup> crew_file) \<times> rng" where
  "crew_main_loop [] generated_files fs r = (Inr generated_files, fs, r)"
| "crew_main_loop ((num_airports, num_flights) # rest) generated_files fs r =
     (case crew_generate_test_file num_airports num_flights fs r of
        (Inl e, fs', r') \<Rightarrow> (Inl e, fs', r')
      | (Inr res, fs', r') \<Rightarrow> crew_main_loop rest (generated_files @ [res]) fs' r')"

definition crew_main ::
  "(int \<Rightarrow> nat \<Rightarrow> nat) \<Rightarrow> (string \<rightharpoonup> crew_file)
     \<Rightarrow> (py_error + (string \<times> int \<times> int) list) \<times> (string \<rightharpoonup> crew_file) \<times> rng" where
  "crew_main seeded fs = crew_main_loop crew_TEST_CONFIGS [] fs \<lparr>seq = seeded RANDOM_SEED, pos = 0\<rparr>"

section \<open>Predicates used in the statements\<close>

text \<open>
  A flight as the generator means it: no self-loop, a departure at or after time 0,
  a duration within the fixed bounds, an arrival within the horizon.
\<close>

definition flight_ok :: "flight \<Rightarrow> bool" where
  "flight_ok f \<longleftrightarrow>
     departure_airport f \<noteq> arrival_airport f \<and> 0 \<le> departure_time f \<and>
     MIN_FLIGHT_DURATION \<le> arrival_time f - departure_time f \<and>
     arrival_time f - departure_time f \<le> MAX_FLIGHT_DURATION \<and>
     arrival_time f \<le> TIME_HORIZON"



section \<open>The nutrient universe\<close>

lemma universe_loop_total:
  "\<forall>i \<in> set is. \<exists>nm. nutrient_name i = Inr nm \<Longrightarrow> \<exists>us. universe_loop is acc = Inr us"
  by (induction "is" arbitrary: acc) auto

lemma nutrient_name_eq:
  assumes "i < 11140470"
  shows "nutrient_name i =
     Inr (prefixes ! (i mod 10)
          @ (if 1 \<le> i div 10 then utf8 (of_char CHR ''A'' + i div 10) else [])
          @ str_nat (i mod 10 + 1))"
proof -
  have len: "length prefixes = 10" by (simp add: prefixes_def)
  have A: "of_char CHR ''A'' = (65::nat)" by simp
  have "i div 10 < 1114047" using assms by simp
  then have "py_chr (65 + i div 10) = Inr (utf8 (65 + i div 10))"
    by (simp add: py_chr_def)
  moreover have "(10 \<le> i) = (1 \<le> i div 10)" by presburger
  ultimately show ?thesis
    unfolding nutrient_name_def len A Let_def by simp
qed

lemma universe_loop_Inr:
  "universe_loop is acc = Inr us \<Longrightarrow>
     length us = length acc + length is \<and> (\<forall>j < length acc. us ! j = acc ! j) \<and>
     (\<forall>j < length is. nutrient_name (is ! j) = Inr (us ! (length acc + j)))"
proof (induction "is" arbitrary: acc)
  case Nil
  then show ?case by simp
next
  case (Cons i "is")
  then obtain nm where nm: "nutrient_name i = Inr nm"
    and rec: "universe_loop is (acc @ [nm]) = Inr us"
    by (auto split: sum.splits)
  from Cons.IH[OF rec] have len: "length us = Suc (length acc) + length is"
    and pre: "\<forall>j < Suc (length acc). us ! j = (acc @ [nm]) ! j"
    and post: "\<forall>j < length is. nutrient_name (is ! j) = Inr (us ! (Suc (length acc) + j))"
    by auto
  show ?case
  proof (intro conjI allI impI)
    show "length us = length acc + length (i # is)" using len by simp
  next
    fix j assume "j < length acc"
    then show "us ! j = acc ! j" using pre by (auto simp: nth_append)
  next
    fix j assume j: "j < length (i # is)"
    show "nutrient_name ((i # is) ! j) = Inr (us ! (length acc + j))"
    proof (cases j)
      case 0
      then show ?thesis using pre nm by (auto simp: nth_append)
    next
      case (Suc j')
      then show ?thesis using post j by auto
    qed
  qed
qed

lemma generate_universe_12:
  "generate_universe 12 =
     Inr [''Vitamin1'', ''Mineral2'', ''Protein3'', ''Fiber4'', ''Omega5'', ''Amino6'',
          ''Enzyme7'', ''Antioxidant8'', ''Electrolyte9'', ''Nutrient10'', ''VitaminB1'',
          ''MineralB2'']"
  by (simp add: generate_universe_def upt_conv_Cons nutrient_name_def prefixes_def py_chr_def
      utf8_def str_nat.simps digit_char_def char_of_eq_iff)

text \<open>
  C1, as the code has it. \<^verbatim>\<open>generate_universe\<close> is a function of \<open>n\<close> alone. For
  every \<open>n\<close> up to 11140470 (beyond it \<^verbatim>\<open>chr\<close> raises) it returns \<open>n\<close> names, and
  entry \<open>i\<close> is the prefix \<open>prefixes[i mod 10]\<close>, then, for cycle index
  \<open>k = i div 10 \<ge> 1\<close>, the letter \<^verbatim>\<open>chr(ord('A') + k)\<close>, then the 1-based position
  \<open>i mod 10 + 1\<close>. The first ten entries carry no suffix; the suffix of the second
  cycle is \<open>B\<close>, not \<open>A\<close>.
\<close>

theorem generate_universe_rule:
  assumes "n \<le> 11140470"
  shows "\<exists>us. generate_universe n = Inr us \<and> length us = nat n \<and>
    (\<forall>i < nat n. us ! i = prefixes ! (i mod 10)
        @ (if 1 \<le> i div 10 then utf8 (of_char CHR ''A'' + i div 10) else [])
        @ str_nat (i mod 10 + 1))"
proof -
  have small: "\<And>i. i < nat n \<Longrightarrow> i < 11140470" using assms by linarith
  then have "\<forall>i \<in> set [0..<nat n]. \<exists>nm. nutrient_name i = Inr nm"
    using nutrient_name_eq by auto
  then obtain us where us: "universe_loop [0..<nat n] [] = Inr us"
    using universe_loop_total by blast
  from universe_loop_Inr[OF us]
  have len: "length us = nat n"
    and nth: "\<forall>j < nat n. nutrient_name j = Inr (us ! j)" by auto
  have "\<forall>i < nat n. us ! i = prefixes ! (i mod 10)
        @ (if 1 \<le> i div 10 then utf8 (of_char CHR ''A'' + i div 10) else [])
        @ str_nat (i mod 10 + 1)"
  proof (intro allI impI)
    fix i assume i: "i < nat n"
    from nutrient_name_eq[OF small[OF i]] nth i show "us ! i = prefixes ! (i mod 10)
        @ (if 1 \<le> i div 10 then utf8 (of_char CHR ''A'' + i div 10) else [])
        @ str_nat (i mod 10 + 1)" by simp
  qed
  with us len show ?thesis unfolding generate_universe_def by blast
qed

theorem generate_universe_rule_witness:
  "(12::int) \<le> 11140470 \<and>
   generate_universe 12 =
     Inr [''Vitamin1'', ''Mineral2'', ''Protein3'', ''Fiber4'', ''Omega5'', ''Amino6'',
          ''Enzyme7'', ''Antioxidant8'', ''Electrolyte9'', ''Nutrient10'', ''VitaminB1'',
          ''MineralB2''] \<and>
   prefixes ! (10 mod 10)
     @ (if 1 \<le> (10::nat) div 10 then utf8 (of_char CHR ''A'' + 10 div 10) else [])
     @ str_nat (10 mod 10 + 1) = ''VitaminB1''"
proof -
  have le: "(12::int) \<le> 11140470" by simp
  obtain us where us: "generate_universe 12 = Inr us" and
    nth: "\<forall>i < nat 12. us ! i = prefixes ! (i mod 10)
        @ (if 1 \<le> i div 10 then utf8 (of_char CHR ''A'' + i div 10) else [])
        @ str_nat (i mod 10 + 1)"
    using generate_universe_rule[OF le] by blast
  have "Inr us = generate_universe 12" using us by (rule sym)
  also note generate_universe_12
  finally have "us ! 10 = ''VitaminB1''" by simp
  moreover have "us ! 10 = prefixes ! (10 mod 10)
      @ (if 1 \<le> (10::nat) div 10 then utf8 (of_char CHR ''A'' + 10 div 10) else [])
      @ str_nat (10 mod 10 + 1)"
    using nth by simp
  ultimately show ?thesis using generate_universe_12 by simp
qed

text \<open>
  C1 as stated fails: with the suffix \<^verbatim>\<open>chr('A' + k - 1)\<close> the 11th entry of
  \<^verbatim>\<open>generate_universe(12)\<close> would be \<open>VitaminA1\<close>; the code returns \<open>VitaminB1\<close>.
\<close>

theorem generate_universe_spec_counterexample:
  "generate_universe 12 =
     Inr [''Vitamin1'', ''Mineral2'', ''Protein3'', ''Fiber4'', ''Omega5'', ''Amino6'',
          ''Enzyme7'', ''Antioxidant8'', ''Electrolyte9'', ''Nutrient10'', ''VitaminB1'',
          ''MineralB2''] \<and>
   spec_nutrient_name 10 = ''VitaminA1'' \<and>
   generate_universe 12 \<noteq> Inr (map spec_nutrient_name [0..<12])"
proof -
  have a: "spec_nutrient_name 10 = ''VitaminA1''"
    by (simp add: spec_nutrient_name_def prefixes_def str_nat.simps digit_char_def char_of_eq_iff)
  have b: "map spec_nutrient_name [0..<12] ! 10 = ''VitaminA1''" using a by simp
  have "generate_universe 12 \<noteq> Inr (map spec_nutrient_name [0..<12])"
  proof
    assume "generate_universe 12 = Inr (map spec_nutrient_name [0..<12])"
    then have "map spec_nutrient_name [0..<12] =
      [''Vitamin1'', ''Mineral2'', ''Protein3'', ''Fiber4'', ''Omega5'', ''Amino6'',
       ''Enzyme7'', ''Antioxidant8'', ''Electrolyte9'', ''Nutrient10'', ''VitaminB1'',
       ''MineralB2'']"
      by (simp only: generate_universe_12 sum.inject)
    then have "map spec_nutrient_name [0..<12] ! 10 = ''VitaminB1''" by (simp only:) simp
    with b show False by simp
  qed
  with generate_universe_12 a show ?thesis by simp
qed

section \<open>The flight network\<close>

subsection \<open>The random primitives and the monad\<close>

lemma sbind_Inr:
  "sbind m f s = (Inr y, s'') \<longleftrightarrow> (\<exists>x s'. m s = (Inr x, s') \<and> f x s' = (Inr y, s''))"
  by (auto simp: sbind_def split: prod.splits sum.splits)

lemma sreturn_eq: "sreturn x s = (v, s') \<longleftrightarrow> v = Inr x \<and> s' = s"
  by (auto simp: sreturn_def)

lemma randint_Inr:
  "randint a b r = (Inr v, r') \<Longrightarrow> a \<le> v \<and> v \<le> b"
proof -
  assume h: "randint a b r = (Inr v, r')"
  then have ab: "a \<le> b" by (auto simp: randint_def split: if_splits)
  then have pos: "0 < nat (b - a + 1)" by simp
  from h ab have v: "v = a + int (seq r (pos r) mod nat (b - a + 1))"
    by (auto simp: randint_def randbelow_def)
  have "seq r (pos r) mod nat (b - a + 1) < nat (b - a + 1)"
    using pos by (rule mod_less_divisor)
  then show ?thesis using v by linarith
qed

lemma randint_total:
  "a \<le> b \<Longrightarrow> \<exists>v r'. randint a b r = (Inr v, r')"
  by (simp add: randint_def randbelow_def)

lemma choice_Inr: "choice xs r = (Inr x, r') \<Longrightarrow> x \<in> set xs"
  by (auto simp: choice_def randbelow_def split: if_splits)

lemma choice_total: "xs \<noteq> [] \<Longrightarrow> \<exists>x r'. choice xs r = (Inr x, r')"
  by (simp add: choice_def randbelow_def)

subsection \<open>Sampling and repair\<close>

lemma repair_flight_Inr:
  assumes "repair_flight airports airport r = (Inr f, r')"
  shows "departure_airport f = airport \<and> arrival_airport f \<in> set airports \<and> flight_ok f"
proof -
  from assms obtain other r1 dep_time r2 duration where
    c: "choice [a \<leftarrow> airports. a \<noteq> airport] r = (Inr other, r1)" and
    t: "randint 0 (TIME_HORIZON - MAX_FLIGHT_DURATION) r1 = (Inr dep_time, r2)" and
    d: "randint MIN_FLIGHT_DURATION MAX_FLIGHT_DURATION r2 = (Inr duration, r')" and
    f: "f = \<lparr>departure_airport = airport, arrival_airport = other,
              departure_time = dep_time, arrival_time = dep_time + duration\<rparr>"
    unfolding repair_flight_def sbind_Inr sreturn_eq by auto
  from choice_Inr[OF c] have o: "other \<in> set airports" "other \<noteq> airport" by auto
  from randint_Inr[OF t] randint_Inr[OF d] o f show ?thesis
    by (simp add: flight_ok_def TIME_HORIZON_def MAX_FLIGHT_DURATION_def MIN_FLIGHT_DURATION_def)
qed

lemma sample_flight_Inr:
  assumes "sample_flight airports r = (Inr f, r')"
  shows "departure_airport f \<in> set airports \<and> arrival_airport f \<in> set airports \<and> flight_ok f"
proof -
  from assms obtain dep r0 other r1 dep_time r2 duration where
    c0: "choice airports r = (Inr dep, r0)" and
    c: "choice [a \<leftarrow> airports. a \<noteq> dep] r0 = (Inr other, r1)" and
    t: "randint 0 (TIME_HORIZON - MAX_FLIGHT_DURATION) r1 = (Inr dep_time, r2)" and
    d: "randint MIN_FLIGHT_DURATION MAX_FLIGHT_DURATION r2 = (Inr duration, r')" and
    f: "f = \<lparr>departure_airport = dep, arrival_airport = other,
              departure_time = dep_time, arrival_time = dep_time + duration\<rparr>"
    unfolding sample_flight_def sbind_Inr sreturn_eq by auto
  from choice_Inr[OF c] have o: "other \<in> set airports" "other \<noteq> dep" by auto
  from randint_Inr[OF t] randint_Inr[OF d] o f choice_Inr[OF c0] show ?thesis
    by (simp add: flight_ok_def TIME_HORIZON_def MAX_FLIGHT_DURATION_def MIN_FLIGHT_DURATION_def)
qed

lemma repair_flight_total:
  assumes "2 \<le> card (set airports)"
  shows "\<exists>f r'. repair_flight airports airport r = (Inr f, r')"
proof -
  have "set [a \<leftarrow> airports. a \<noteq> airport] = set airports - {airport}" by auto
  moreover have "card (set airports - {airport}) \<ge> 1"
    using assms by (auto simp: card_Diff_singleton_if)
  ultimately have "[a \<leftarrow> airports. a \<noteq> airport] \<noteq> []"
    by (metis card.empty not_one_le_zero set_empty)
  from choice_total[OF this] obtain other r1 where
    c: "choice [a \<leftarrow> airports. a \<noteq> airport] r = (Inr other, r1)" by blast
  obtain dep_time r2 where t: "randint 0 (TIME_HORIZON - MAX_FLIGHT_DURATION) r1 = (Inr dep_time, r2)"
    using randint_total[of 0 "TIME_HORIZON - MAX_FLIGHT_DURATION" r1]
    by (auto simp: TIME_HORIZON_def MAX_FLIGHT_DURATION_def)
  obtain duration r3 where d: "randint MIN_FLIGHT_DURATION MAX_FLIGHT_DURATION r2 = (Inr duration, r3)"
    using randint_total[of MIN_FLIGHT_DURATION MAX_FLIGHT_DURATION r2]
    by (auto simp: MIN_FLIGHT_DURATION_def MAX_FLIGHT_DURATION_def)
  show ?thesis unfolding repair_flight_def sbind_Inr sreturn_eq using c t d by blast
qed

lemma connect_loop_appends:
  "connect_loop as airports hdep flights r = (res, flights', r') \<Longrightarrow>
   \<exists>added. flights' = flights @ added \<and>
     (\<forall>f \<in> set added. departure_airport f \<in> set as \<and> departure_airport f \<notin> hdep \<and>
        arrival_airport f \<in> set airports \<and> flight_ok f)"
proof (induction as arbitrary: flights r)
  case Nil
  then show ?case by simp
next
  case (Cons a as)
  show ?case
  proof (cases "a \<in> hdep")
    case True
    with Cons.prems have "connect_loop as airports hdep flights r = (res, flights', r')" by simp
    from Cons.IH[OF this] show ?thesis by auto
  next
    case False
    show ?thesis
    proof (cases "repair_flight airports a r")
      case (Pair x r1)
      show ?thesis
      proof (cases x)
        case (Inl e)
        with Pair False Cons.prems have "flights' = flights" by simp
        then show ?thesis by simp
      next
        case (Inr f)
        with Pair False Cons.prems
        have rec: "connect_loop as airports hdep (flights @ [f]) r1 = (res, flights', r')" by simp
        from Cons.IH[OF rec] obtain added where
          a1: "flights' = (flights @ [f]) @ added" and
          a2: "\<forall>g \<in> set added. departure_airport g \<in> set as \<and> departure_airport g \<notin> hdep \<and>
             arrival_airport g \<in> set airports \<and> flight_ok g" by blast
        from repair_flight_Inr[of airports a r f r1] Pair Inr
        have fok: "departure_airport f = a \<and> arrival_airport f \<in> set airports \<and> flight_ok f" by simp
        have "flights' = flights @ (f # added)" using a1 by simp
        moreover have "\<forall>g \<in> set (f # added). departure_airport g \<in> set (a # as) \<and>
            departure_airport g \<notin> hdep \<and> arrival_airport g \<in> set airports \<and> flight_ok g"
          using a2 fok False by auto
        ultimately show ?thesis by blast
      qed
    qed
  qed
qed

lemma connect_loop_total:
  assumes "2 \<le> card (set airports)"
  shows "\<exists>added r'. connect_loop as airports hdep flights r = (Inr (), flights @ added, r') \<and>
     map departure_airport added = [a \<leftarrow> as. a \<notin> hdep]"
proof (induction as arbitrary: flights r)
  case Nil
  then show ?case by simp
next
  case (Cons a as)
  show ?case
  proof (cases "a \<in> hdep")
    case True
    then show ?thesis using Cons.IH[of flights r] by simp
  next
    case False
    from repair_flight_total[OF assms, of a r] obtain f r1 where
      f: "repair_flight airports a r = (Inr f, r1)" by blast
    from repair_flight_Inr[OF f] have da: "departure_airport f = a" by simp
    from Cons.IH[of "flights @ [f]" r1] obtain added r' where
      rec: "connect_loop as airports hdep (flights @ [f]) r1 = (Inr (), (flights @ [f]) @ added, r')"
      and m: "map departure_airport added = [a \<leftarrow> as. a \<notin> hdep]" by blast
    have "connect_loop (a # as) airports hdep flights r = (Inr (), flights @ (f # added), r')"
      using False f rec by simp
    moreover have "map departure_airport (f # added) = [x \<leftarrow> a # as. x \<notin> hdep]"
      using False da m by simp
    ultimately show ?thesis by blast
  qed
qed


lemma schedule_loop_ok:
  "schedule_loop n airports acc r = (Inr fl, r') \<Longrightarrow>
   \<forall>f \<in> set acc. flight_ok f \<and> departure_airport f \<in> set airports
           \<and> arrival_airport f \<in> set airports \<Longrightarrow>
   \<forall>f \<in> set fl. flight_ok f \<and> departure_airport f \<in> set airports
           \<and> arrival_airport f \<in> set airports"
proof (induction n arbitrary: acc r)
  case 0
  then show ?case by (simp add: sreturn_eq)
next
  case (Suc n)
  from Suc.prems(1) obtain f r1 where
    f: "sample_flight airports r = (Inr f, r1)" and
    rec: "schedule_loop n airports (acc @ [f]) r1 = (Inr fl, r')"
    by (auto simp: sbind_Inr)
  have "\<forall>g \<in> set (acc @ [f]). flight_ok g \<and> departure_airport g \<in> set airports
           \<and> arrival_airport g \<in> set airports"
    using Suc.prems(2) sample_flight_Inr[OF f] by auto
  from Suc.IH[OF rec this] show ?case .
qed

lemma generate_flight_schedule_ok:
  assumes "generate_flight_schedule airports num_flights r = (Inr fl, r')"
  shows "\<forall>f \<in> set fl. flight_ok f \<and> departure_airport f \<in> set airports
           \<and> arrival_airport f \<in> set airports"
proof -
  from assms obtain raw where
    raw: "schedule_loop (nat num_flights) airports [] r = (Inr raw, r')" and
    fl: "fl = sort_key (\<lambda>f. (departure_time f, departure_airport f)) raw"
    unfolding generate_flight_schedule_def sbind_Inr sreturn_eq by auto
  have "\<forall>f \<in> set raw. flight_ok f \<and> departure_airport f \<in> set airports
           \<and> arrival_airport f \<in> set airports"
    by (rule schedule_loop_ok[OF raw]) simp
  then show ?thesis using fl by simp
qed

lemma ensure_connectivity_appends:
  assumes "ensure_connectivity airports flights r = (res, flights', r')"
  shows "\<exists>added. flights' = flights @ added \<and>
     (\<forall>f \<in> set added. departure_airport f \<in> set airports \<and>
        departure_airport f \<notin> departure_airport ` set flights \<and>
        arrival_airport f \<in> set airports \<and> flight_ok f)"
  using connect_loop_appends[of airports airports "set (map departure_airport flights)" flights r res flights' r']
    assms by (simp add: ensure_connectivity_def)

lemma generate_airports_5:
  "generate_airports 5 = [''JFK'', ''LAX'', ''ORD'', ''DFW'', ''DEN'']"
  by (simp add: generate_airports_def airport_codes_def upt_conv_Cons)


lemmas rng_eval = sbind_def sreturn_def choice_def randint_def randbelow_def

lemmas crew_eval = ensure_connectivity_def repair_flight_def sample_flight_def
  generate_flight_schedule_def TIME_HORIZON_def MAX_FLIGHT_DURATION_def MIN_FLIGHT_DURATION_def

lemma card_generate_airports_5: "2 \<le> card (set (generate_airports 5))"
  by (simp add: generate_airports_5)


lemma ensure_connectivity_run_1:
  "ensure_connectivity [''JFK'', ''LAX'']
     [\<lparr>departure_airport = ''JFK'', arrival_airport = ''LAX'',
       departure_time = 100, arrival_time = 200\<rparr>] \<lparr>seq = (\<lambda>n. n), pos = 0\<rparr> =
   (Inr (),
    [\<lparr>departure_airport = ''JFK'', arrival_airport = ''LAX'',
      departure_time = 100, arrival_time = 200\<rparr>,
     \<lparr>departure_airport = ''LAX'', arrival_airport = ''JFK'',
      departure_time = 1, arrival_time = 63\<rparr>], \<lparr>seq = (\<lambda>n. n), pos = 3\<rparr>)"
  by (simp add: rng_eval crew_eval)

lemma ensure_connectivity_run_2:
  "ensure_connectivity [''JFK'', ''LAX''] [] \<lparr>seq = (\<lambda>n. 0), pos = 0\<rparr> =
   (Inr (),
    [\<lparr>departure_airport = ''JFK'', arrival_airport = ''LAX'',
      departure_time = 0, arrival_time = 60\<rparr>,
     \<lparr>departure_airport = ''LAX'', arrival_airport = ''JFK'',
      departure_time = 0, arrival_time = 60\<rparr>], \<lparr>seq = (\<lambda>n. 0), pos = 6\<rparr>)"
  by (simp add: rng_eval crew_eval)

lemma crew_generate_test_file_run:
  "crew_generate_test_file 3 1 Map.empty \<lparr>seq = (\<lambda>n. 0), pos = 0\<rparr> =
   (Inr (''crewscheduling_a3_f1.csv'', 3, 3),
    [''data/crewscheduling_a3_f1.csv'' \<mapsto>
       \<lparr>file_airports = [''JFK'', ''LAX'', ''ORD''],
        file_flights =
          [\<lparr>departure_airport = ''JFK'', arrival_airport = ''LAX'',
            departure_time = 0, arrival_time = 60\<rparr>,
           \<lparr>departure_airport = ''LAX'', arrival_airport = ''JFK'',
            departure_time = 0, arrival_time = 60\<rparr>,
           \<lparr>departure_airport = ''ORD'', arrival_airport = ''JFK'',
            departure_time = 0, arrival_time = 60\<rparr>]\<rparr>],
    \<lparr>seq = (\<lambda>n. 0), pos = 10\<rparr>)"
  by (simp add: crew_generate_test_file_def rng_eval crew_eval generate_airports_def
      airport_codes_def upt_conv_Cons str_int_def str_nat.simps digit_char_def DATA_DIR_def Let_def)

text \<open>
  C9. \<^verbatim>\<open>ensure_connectivity\<close> only appends: whatever the airports, the flights and
  the generator, and whether it returns or raises, the flight list afterwards is the
  list before, unchanged and in its order, followed by the added flights; nothing is
  sorted again. Every added flight departs from an airport of the list that had no
  departure before.
\<close>

theorem ensure_connectivity_only_appends:
  "\<exists>added. fst (snd (ensure_connectivity airports flights r)) = flights @ added \<and>
     (\<forall>f \<in> set added. departure_airport f \<in> set airports \<and>
        departure_airport f \<notin> departure_airport ` set flights)"
proof -
  obtain res flights' r' where e: "ensure_connectivity airports flights r = (res, flights', r')"
    by (metis prod_cases3)
  from ensure_connectivity_appends[OF e] show ?thesis unfolding e by auto
qed


theorem ensure_connectivity_only_appends_witness:
  "fst (snd (ensure_connectivity [''JFK'', ''LAX'']
      [\<lparr>departure_airport = ''JFK'', arrival_airport = ''LAX'',
        departure_time = 100, arrival_time = 200\<rparr>] \<lparr>seq = (\<lambda>n. n), pos = 0\<rparr>)) =
     [\<lparr>departure_airport = ''JFK'', arrival_airport = ''LAX'',
       departure_time = 100, arrival_time = 200\<rparr>]
     @ [\<lparr>departure_airport = ''LAX'', arrival_airport = ''JFK'',
         departure_time = 1, arrival_time = 63\<rparr>] \<and>
   (\<exists>added. fst (snd (ensure_connectivity [''JFK'', ''LAX'']
      [\<lparr>departure_airport = ''JFK'', arrival_airport = ''LAX'',
        departure_time = 100, arrival_time = 200\<rparr>] \<lparr>seq = (\<lambda>n. n), pos = 0\<rparr>)) =
     [\<lparr>departure_airport = ''JFK'', arrival_airport = ''LAX'',
       departure_time = 100, arrival_time = 200\<rparr>] @ added \<and>
     (\<forall>f \<in> set added. departure_airport f \<in> set [''JFK'', ''LAX''] \<and>
        departure_airport f \<notin> departure_airport `
          set [\<lparr>departure_airport = ''JFK'', arrival_airport = ''LAX'',
                departure_time = 100, arrival_time = 200\<rparr>]))"
proof (rule conjI)
  show "fst (snd (ensure_connectivity [''JFK'', ''LAX'']
      [\<lparr>departure_airport = ''JFK'', arrival_airport = ''LAX'',
        departure_time = 100, arrival_time = 200\<rparr>] \<lparr>seq = (\<lambda>n. n), pos = 0\<rparr>)) =
     [\<lparr>departure_airport = ''JFK'', arrival_airport = ''LAX'',
       departure_time = 100, arrival_time = 200\<rparr>]
     @ [\<lparr>departure_airport = ''LAX'', arrival_airport = ''JFK'',
         departure_time = 1, arrival_time = 63\<rparr>]"
    by (simp add: ensure_connectivity_run_1)
qed (rule ensure_connectivity_only_appends)

text \<open>
  C3. With at least two different airports in the list, \<^verbatim>\<open>ensure_connectivity\<close>
  returns, and afterwards every airport of the list is the departure airport of some
  flight.
\<close>

theorem ensure_connectivity_every_airport_departs:
  assumes "2 \<le> card (set airports)"
  shows "\<exists>flights' r'. ensure_connectivity airports flights r = (Inr (), flights', r') \<and>
     (\<forall>a \<in> set airports. \<exists>f \<in> set flights'. departure_airport f = a)"
proof -
  let ?hd = "set (map departure_airport flights)"
  from connect_loop_total[OF assms, of airports ?hd flights r] obtain added r' where
    c: "connect_loop airports airports ?hd flights r = (Inr (), flights @ added, r')" and
    m: "map departure_airport added = [a \<leftarrow> airports. a \<notin> ?hd]" by blast
  have "\<forall>a \<in> set airports. \<exists>f \<in> set (flights @ added). departure_airport f = a"
  proof
    fix a assume a: "a \<in> set airports"
    show "\<exists>f \<in> set (flights @ added). departure_airport f = a"
    proof (cases "a \<in> ?hd")
      case True
      then show ?thesis by auto
    next
      case False
      with a have "a \<in> set [a \<leftarrow> airports. a \<notin> ?hd]" by simp
      then have "a \<in> set (map departure_airport added)" using m by simp
      then show ?thesis by auto
    qed
  qed
  with c show ?thesis by (simp add: ensure_connectivity_def)
qed


theorem ensure_connectivity_every_airport_departs_witness:
  "2 \<le> card (set [''JFK'', ''LAX'']) \<and>
   ensure_connectivity [''JFK'', ''LAX''] [] \<lparr>seq = (\<lambda>n. 0), pos = 0\<rparr> =
     (Inr (),
      [\<lparr>departure_airport = ''JFK'', arrival_airport = ''LAX'',
        departure_time = 0, arrival_time = 60\<rparr>,
       \<lparr>departure_airport = ''LAX'', arrival_airport = ''JFK'',
        departure_time = 0, arrival_time = 60\<rparr>], \<lparr>seq = (\<lambda>n. 0), pos = 6\<rparr>) \<and>
   (\<exists>flights' r'.
      ensure_connectivity [''JFK'', ''LAX''] [] \<lparr>seq = (\<lambda>n. 0), pos = 0\<rparr> = (Inr (), flights', r') \<and>
      (\<forall>a \<in> set [''JFK'', ''LAX'']. \<exists>f \<in> set flights'. departure_airport f = a))"
proof -
  have c: "2 \<le> card (set [''JFK'', ''LAX''])" by simp
  from ensure_connectivity_every_airport_departs[OF c, of "[]" "\<lparr>seq = (\<lambda>n. 0), pos = 0\<rparr>"]
    c ensure_connectivity_run_2
  show ?thesis by blast
qed

text \<open>
  C7. Every flight that \<^verbatim>\<open>generate_test_file\<close> writes, sampled or added by the
  repair, has different departure and arrival airports, a departure time of at least
  0, and an arrival time that is the departure time plus a duration between 60 and
  600, at most 10000.
\<close>

theorem emitted_flights_well_formed:
  assumes "crew_generate_test_file num_airports num_flights fs r = (Inr (filename, a, n), fs', r')"
  shows "\<exists>file. fs' (DATA_DIR @ ''/'' @ filename) = Some file \<and>
     (\<forall>f \<in> set (file_flights file).
        departure_airport f \<noteq> arrival_airport f \<and> 0 \<le> departure_time f \<and>
        (\<exists>duration. 60 \<le> duration \<and> duration \<le> 600 \<and>
           arrival_time f = departure_time f + duration \<and>
           departure_time f + duration \<le> 10000))"
proof -
  let ?airports = "generate_airports num_airports"
  from assms obtain sampled r1 flights u where
    g: "generate_flight_schedule ?airports num_flights r = (Inr sampled, r1)" and
    e: "ensure_connectivity ?airports sampled r1 = (Inr u, flights, r')" and
    fs': "fs' = fs(DATA_DIR @ ''/'' @ filename \<mapsto>
             \<lparr>file_airports = ?airports, file_flights = flights\<rparr>)"
    unfolding crew_generate_test_file_def Let_def
    by (auto split: prod.splits sum.splits)
  from ensure_connectivity_appends[OF e] generate_flight_schedule_ok[OF g]
  have ok: "\<forall>f \<in> set flights. flight_ok f" by auto
  have "\<forall>f \<in> set flights.
        departure_airport f \<noteq> arrival_airport f \<and> 0 \<le> departure_time f \<and>
        (\<exists>duration. 60 \<le> duration \<and> duration \<le> 600 \<and>
           arrival_time f = departure_time f + duration \<and>
           departure_time f + duration \<le> 10000)"
  proof
    fix f assume "f \<in> set flights"
    with ok have k: "flight_ok f" by blast
    let ?d = "arrival_time f - departure_time f"
    have "60 \<le> ?d \<and> ?d \<le> 600 \<and> arrival_time f = departure_time f + ?d \<and>
          departure_time f + ?d \<le> 10000"
      using k by (simp add: flight_ok_def MIN_FLIGHT_DURATION_def MAX_FLIGHT_DURATION_def
          TIME_HORIZON_def)
    then show "departure_airport f \<noteq> arrival_airport f \<and> 0 \<le> departure_time f \<and>
        (\<exists>duration. 60 \<le> duration \<and> duration \<le> 600 \<and>
           arrival_time f = departure_time f + duration \<and>
           departure_time f + duration \<le> 10000)"
      using k unfolding flight_ok_def by blast
  qed
  then show ?thesis unfolding fs' by simp
qed


theorem emitted_flights_well_formed_witness:
  "crew_generate_test_file 3 1 Map.empty \<lparr>seq = (\<lambda>n. 0), pos = 0\<rparr> =
   (Inr (''crewscheduling_a3_f1.csv'', 3, 3),
    [''data/crewscheduling_a3_f1.csv'' \<mapsto>
       \<lparr>file_airports = [''JFK'', ''LAX'', ''ORD''],
        file_flights =
          [\<lparr>departure_airport = ''JFK'', arrival_airport = ''LAX'',
            departure_time = 0, arrival_time = 60\<rparr>,
           \<lparr>departure_airport = ''LAX'', arrival_airport = ''JFK'',
            departure_time = 0, arrival_time = 60\<rparr>,
           \<lparr>departure_airport = ''ORD'', arrival_airport = ''JFK'',
            departure_time = 0, arrival_time = 60\<rparr>]\<rparr>],
    \<lparr>seq = (\<lambda>n. 0), pos = 10\<rparr>) \<and>
   (\<exists>file. [''data/crewscheduling_a3_f1.csv'' \<mapsto>
       \<lparr>file_airports = [''JFK'', ''LAX'', ''ORD''],
        file_flights =
          [\<lparr>departure_airport = ''JFK'', arrival_airport = ''LAX'',
            departure_time = 0, arrival_time = 60\<rparr>,
           \<lparr>departure_airport = ''LAX'', arrival_airport = ''JFK'',
            departure_time = 0, arrival_time = 60\<rparr>,
           \<lparr>departure_airport = ''ORD'', arrival_airport = ''JFK'',
            departure_time = 0, arrival_time = 60\<rparr>]\<rparr>]
       (DATA_DIR @ ''/'' @ ''crewscheduling_a3_f1.csv'') = Some file \<and>
     (\<forall>f \<in> set (file_flights file).
        departure_airport f \<noteq> arrival_airport f \<and> 0 \<le> departure_time f \<and>
        (\<exists>duration. 60 \<le> duration \<and> duration \<le> 600 \<and>
           arrival_time f = departure_time f + duration \<and>
           departure_time f + duration \<le> 10000)))"
  using emitted_flights_well_formed[OF crew_generate_test_file_run] crew_generate_test_file_run
  by (rule conjI[rotated])

text \<open>
  C5. With five airports and no requested flight, the sampler returns no flight and
  draws nothing, the repair returns five flights, one departing from each airport in
  the order of the airport list, and these five are what the file holds.
\<close>

theorem five_airports_zero_flights:
  "\<exists>flights r'.
     generate_flight_schedule (generate_airports 5) 0 r = (Inr [], r) \<and>
     ensure_connectivity (generate_airports 5) [] r = (Inr (), flights, r') \<and>
     length flights = 5 \<and>
     map departure_airport flights = [''JFK'', ''LAX'', ''ORD'', ''DFW'', ''DEN''] \<and>
     crew_generate_test_file 5 0 fs r =
       (Inr (''crewscheduling_a5_f0.csv'', 5, 5),
        fs(''data/crewscheduling_a5_f0.csv'' \<mapsto>
             \<lparr>file_airports = [''JFK'', ''LAX'', ''ORD'', ''DFW'', ''DEN''], file_flights = flights\<rparr>),
        r')"
proof -
  let ?airports = "generate_airports 5"
  have g: "generate_flight_schedule ?airports 0 r = (Inr [], r)"
    by (simp add: generate_flight_schedule_def sbind_def sreturn_def)
  from connect_loop_total[OF card_generate_airports_5, of ?airports "{}" "[]" r]
  obtain added r' where
    c: "connect_loop ?airports ?airports {} [] r = (Inr (), added, r')" and
    m: "map departure_airport added = ?airports" by auto
  have e: "ensure_connectivity ?airports [] r = (Inr (), added, r')"
    using c by (simp add: ensure_connectivity_def)
  have len: "length added = 5"
    using arg_cong[OF m, of length] by (simp add: generate_airports_5)
  have nm: "str_int 5 = ''5''" "str_int 0 = ''0''"
    by (simp_all add: str_int_def str_nat.simps digit_char_def)
  have "crew_generate_test_file 5 0 fs r =
       (Inr (''crewscheduling_a5_f0.csv'', 5, 5),
        fs(''data/crewscheduling_a5_f0.csv'' \<mapsto>
             \<lparr>file_airports = ?airports, file_flights = added\<rparr>), r')"
    using len by (simp add: crew_generate_test_file_def Let_def g e nm DATA_DIR_def)
  with g e len m show ?thesis by (simp add: generate_airports_5)
qed

section \<open>The set-cover dataset\<close>

subsection \<open>Sampling without replacement\<close>

lemma swap_remove:
  assumes "distinct pool" "j < length pool"
  shows "distinct (butlast (pool[j := last pool])) \<and>
         set (butlast (pool[j := last pool])) = set pool - {pool ! j}"
proof -
  from assms(2) have "pool \<noteq> []" by auto
  then obtain ys l where p: "pool = ys @ [l]" by (metis rev_exhaust)
  from assms(1) p have d: "distinct ys" "l \<notin> set ys" by auto
  show ?thesis
  proof (cases "j = length ys")
    case True
    then show ?thesis using p d by auto
  next
    case False
    with assms(2) p have j: "j < length ys" by simp
    have b: "butlast (pool[j := last pool]) = ys[j := l]"
      using p j by (simp add: list_update_append)
    have "distinct (ys[j := l])" using d j by (simp add: distinct_list_update)
    moreover have "set (ys[j := l]) = insert l (set ys - {ys ! j})"
      using d j by (simp add: set_update_distinct)
    moreover have "pool ! j = ys ! j" using p j by (simp add: nth_append)
    moreover have "ys ! j \<noteq> l" using d j by (metis nth_mem)
    ultimately show ?thesis using b p d by auto
  qed
qed

lemma swap_remove_subset:
  "pool \<noteq> [] \<Longrightarrow> set (butlast (pool[j := last pool])) \<subseteq> set pool"
proof -
  assume ne: "pool \<noteq> []"
  have "set (butlast (pool[j := last pool])) \<subseteq> set (pool[j := last pool])"
    by (auto dest: in_set_butlastD)
  also have "\<dots> \<subseteq> insert (last pool) (set pool)" by (rule set_update_subset_insert)
  also have "\<dots> = set pool" using ne by auto
  finally show ?thesis .
qed

lemma sample_pool_subset:
  "k \<le> length pool \<Longrightarrow> set (fst (sample_pool pool k r)) \<subseteq> set pool"
proof (induction k arbitrary: pool r)
  case 0
  then show ?case by simp
next
  case (Suc k)
  then have ne: "pool \<noteq> []" by auto
  let ?j = "seq r (pos r) mod length pool"
  let ?pool' = "butlast (pool[?j := last pool])"
  have j: "?j < length pool" using ne by simp
  have len: "k \<le> length ?pool'" using Suc.prems by simp
  have "set (fst (sample_pool ?pool' k (r\<lparr>pos := pos r + 1\<rparr>))) \<subseteq> set ?pool'"
    by (rule Suc.IH[OF len])
  also have "\<dots> \<subseteq> set pool" by (rule swap_remove_subset[OF ne])
  finally show ?case using j
    by (auto simp: randbelow_def Let_def split: prod.splits)
qed

lemma sample_pool_distinct:
  "distinct pool \<Longrightarrow> k \<le> length pool \<Longrightarrow> distinct (fst (sample_pool pool k r))"
proof (induction k arbitrary: pool r)
  case 0
  then show ?case by simp
next
  case (Suc k)
  then have ne: "pool \<noteq> []" by auto
  let ?j = "seq r (pos r) mod length pool"
  let ?pool' = "butlast (pool[?j := last pool])"
  have j: "?j < length pool" using ne by simp
  have len: "k \<le> length ?pool'" using Suc.prems by simp
  from swap_remove[OF Suc.prems(1) j]
  have d: "distinct ?pool'" and s: "set ?pool' = set pool - {pool ! ?j}" by auto
  have "distinct (fst (sample_pool ?pool' k (r\<lparr>pos := pos r + 1\<rparr>)))"
    by (rule Suc.IH[OF d len])
  moreover have "set (fst (sample_pool ?pool' k (r\<lparr>pos := pos r + 1\<rparr>))) \<subseteq> set ?pool'"
    by (rule sample_pool_subset[OF len])
  ultimately show ?case using s
    by (auto simp: randbelow_def Let_def split: prod.splits)
qed

lemma sample_Inr:
  assumes "sample population k r = (Inr xs, r')"
  shows "set xs \<subseteq> set population \<and> (distinct population \<longrightarrow> distinct xs)"
proof -
  from assms have k: "0 \<le> k" "k \<le> int (length population)"
    by (auto simp: sample_def split: if_splits)
  then have n: "nat k \<le> length population" by simp
  from assms k have xs: "xs = fst (sample_pool population (nat k) r)"
    by (auto simp: sample_def split: prod.splits)
  show ?thesis unfolding xs using sample_pool_subset[OF n] sample_pool_distinct[OF _ n] by blast
qed

lemma generate_food_item_Inr:
  assumes "generate_food_item food_id universe mn mx r = (Inr f, r')"
  shows "set (nutrients f) \<subseteq> set universe \<and> (distinct universe \<longrightarrow> distinct (nutrients f))"
proof -
  from assms obtain k r1 r2 where
    "sample universe k r1 = (Inr (nutrients f), r2)"
    unfolding generate_food_item_def sbind_Inr sreturn_eq by auto
  from sample_Inr[OF this] show ?thesis .
qed

lemma generate_food_items_Inr:
  "generate_food_items ids universe mn mx acc r = (Inr foods, r') \<Longrightarrow>
   \<forall>f \<in> set acc. set (nutrients f) \<subseteq> set universe \<and> (distinct universe \<longrightarrow> distinct (nutrients f)) \<Longrightarrow>
   \<forall>f \<in> set foods. set (nutrients f) \<subseteq> set universe \<and> (distinct universe \<longrightarrow> distinct (nutrients f))"
proof (induction ids arbitrary: acc r)
  case Nil
  then show ?case by (simp add: sreturn_eq)
next
  case (Cons i ids)
  from Cons.prems(1) obtain f r1 where
    f: "generate_food_item (i + 1) universe mn mx r = (Inr f, r1)" and
    rec: "generate_food_items ids universe mn mx (acc @ [f]) r1 = (Inr foods, r')"
    by (auto simp: sbind_Inr)
  have "\<forall>g \<in> set (acc @ [f]). set (nutrients g) \<subseteq> set universe \<and>
          (distinct universe \<longrightarrow> distinct (nutrients g))"
    using Cons.prems(2) generate_food_item_Inr[OF f] by auto
  from Cons.IH[OF rec this] show ?case .
qed


subsection \<open>Coverage repair\<close>

lemma choice_upt_Inr: "choice [0..<n] r = (Inr j, r') \<Longrightarrow> j < n"
  using choice_Inr[of "[0..<n]" r j r'] by simp

lemma add_uncovered_shape:
  "add_uncovered ns foods r = (res, foods', r') \<Longrightarrow>
   length foods' = length foods \<and>
   (\<forall>i < length foods. \<exists>extra.
      foods' ! i = (foods ! i)\<lparr>nutrients := nutrients (foods ! i) @ extra\<rparr> \<and>
      set extra \<subseteq> set ns \<and> (distinct ns \<longrightarrow> distinct extra))"
proof (induction ns arbitrary: foods r)
  case Nil
  then show ?case by auto
next
  case (Cons n ns)
  show ?case
  proof (cases "choice [0..<length foods] r")
    case (Pair x r1)
    show ?thesis
    proof (cases x)
      case (Inl e)
      with Pair Cons.prems have "foods' = foods" by simp
      then show ?thesis by (auto intro!: exI[of _ "[]"])
    next
      case (Inr j)
      let ?foods1 = "foods[j := (foods ! j)\<lparr>nutrients := nutrients (foods ! j) @ [n]\<rparr>]"
      from Pair Inr have j: "j < length foods" by (auto dest: choice_upt_Inr)
      from Pair Inr Cons.prems have rec: "add_uncovered ns ?foods1 r1 = (res, foods', r')" by simp
      from Cons.IH[OF rec] have len: "length foods' = length foods" and
        sh: "\<forall>i < length foods. \<exists>extra.
          foods' ! i = (?foods1 ! i)\<lparr>nutrients := nutrients (?foods1 ! i) @ extra\<rparr> \<and>
          set extra \<subseteq> set ns \<and> (distinct ns \<longrightarrow> distinct extra)" by auto
      have "\<forall>i < length foods. \<exists>extra.
          foods' ! i = (foods ! i)\<lparr>nutrients := nutrients (foods ! i) @ extra\<rparr> \<and>
          set extra \<subseteq> set (n # ns) \<and> (distinct (n # ns) \<longrightarrow> distinct extra)"
      proof (intro allI impI)
        fix i assume i: "i < length foods"
        with sh obtain extra where
          e1: "foods' ! i = (?foods1 ! i)\<lparr>nutrients := nutrients (?foods1 ! i) @ extra\<rparr>" and
          e2: "set extra \<subseteq> set ns" and e3: "distinct ns \<longrightarrow> distinct extra" by blast
        show "\<exists>extra. foods' ! i = (foods ! i)\<lparr>nutrients := nutrients (foods ! i) @ extra\<rparr> \<and>
          set extra \<subseteq> set (n # ns) \<and> (distinct (n # ns) \<longrightarrow> distinct extra)"
        proof (cases "i = j")
          case True
          with e1 j have "foods' ! i = (foods ! i)\<lparr>nutrients := nutrients (foods ! i) @ (n # extra)\<rparr>"
            by simp
          moreover have "set (n # extra) \<subseteq> set (n # ns)" using e2 by auto
          moreover have "distinct (n # ns) \<longrightarrow> distinct (n # extra)" using e2 e3 by auto
          ultimately show ?thesis by blast
        next
          case False
          with e1 i have "foods' ! i = (foods ! i)\<lparr>nutrients := nutrients (foods ! i) @ extra\<rparr>"
            by simp
          moreover have "set extra \<subseteq> set (n # ns)" using e2 by auto
          moreover have "distinct (n # ns) \<longrightarrow> distinct extra" using e3 by auto
          ultimately show ?thesis by blast
        qed
      qed
      with len show ?thesis by blast
    qed
  qed
qed

lemma add_uncovered_covers:
  "add_uncovered ns foods r = (Inr u, foods', r') \<Longrightarrow>
   \<forall>n \<in> set ns. \<exists>f \<in> set foods'. n \<in> set (nutrients f)"
proof (induction ns arbitrary: foods r)
  case Nil
  then show ?case by simp
next
  case (Cons n ns)
  from Cons.prems obtain j r1 where
    c: "choice [0..<length foods] r = (Inr j, r1)" and
    rec: "add_uncovered ns (foods[j := (foods ! j)\<lparr>nutrients := nutrients (foods ! j) @ [n]\<rparr>]) r1
            = (Inr u, foods', r')"
    by (auto split: prod.splits sum.splits)
  let ?foods1 = "foods[j := (foods ! j)\<lparr>nutrients := nutrients (foods ! j) @ [n]\<rparr>]"
  from c have j: "j < length foods" by (rule choice_upt_Inr)
  from add_uncovered_shape[OF rec] j obtain extra where
    len: "length foods' = length foods" and
    e: "foods' ! j = (?foods1 ! j)\<lparr>nutrients := nutrients (?foods1 ! j) @ extra\<rparr>"
    by auto
  have "n \<in> set (nutrients (foods' ! j))" using e j by simp
  moreover have "foods' ! j \<in> set foods'" using j len by simp
  ultimately have "\<exists>f \<in> set foods'. n \<in> set (nutrients f)" by blast
  with Cons.IH[OF rec] show ?case by simp
qed

lemma add_uncovered_total:
  "foods \<noteq> [] \<Longrightarrow> \<exists>foods' r'. add_uncovered ns foods r = (Inr (), foods', r')"
proof (induction ns arbitrary: foods r)
  case Nil
  then show ?case by simp
next
  case (Cons n ns)
  then have "[0..<length foods] \<noteq> []" by simp
  from choice_total[OF this, of r] obtain j r1 where
    c: "choice [0..<length foods] r = (Inr j, r1)" by blast
  let ?foods1 = "foods[j := (foods ! j)\<lparr>nutrients := nutrients (foods ! j) @ [n]\<rparr>]"
  have "?foods1 \<noteq> []" using Cons.prems by simp
  from Cons.IH[OF this, of r1] c show ?case by simp
qed

lemma add_uncovered_union:
  assumes "add_uncovered ns foods r = (Inr u, foods', r')"
  shows "(\<Union>f \<in> set foods'. set (nutrients f)) = (\<Union>f \<in> set foods. set (nutrients f)) \<union> set ns"
proof (intro equalityI subsetI)
  fix x assume "x \<in> (\<Union>f \<in> set foods'. set (nutrients f))"
  then obtain f where "f \<in> set foods'" and xf: "x \<in> set (nutrients f)" by blast
  then obtain i where i: "i < length foods'" and "foods' ! i = f"
    by (auto simp: in_set_conv_nth)
  with xf have x: "x \<in> set (nutrients (foods' ! i))" by simp
  from add_uncovered_shape[OF assms] i obtain extra where
    len: "length foods' = length foods" and
    sh: "foods' ! i = (foods ! i)\<lparr>nutrients := nutrients (foods ! i) @ extra\<rparr>" and
    ex: "set extra \<subseteq> set ns" by auto
  from x sh have "x \<in> set (nutrients (foods ! i)) \<or> x \<in> set extra" by simp
  moreover have "foods ! i \<in> set foods" using i len by simp
  ultimately show "x \<in> (\<Union>f \<in> set foods. set (nutrients f)) \<union> set ns"
    using ex by blast
next
  fix x assume "x \<in> (\<Union>f \<in> set foods. set (nutrients f)) \<union> set ns"
  then show "x \<in> (\<Union>f \<in> set foods'. set (nutrients f))"
  proof
    assume "x \<in> (\<Union>f \<in> set foods. set (nutrients f))"
    then obtain f where "f \<in> set foods" and xf: "x \<in> set (nutrients f)" by blast
    then obtain i where i: "i < length foods" and "foods ! i = f"
      by (auto simp: in_set_conv_nth)
    with xf have x: "x \<in> set (nutrients (foods ! i))" by simp
    from add_uncovered_shape[OF assms] i obtain extra where
      len: "length foods' = length foods" and
      sh: "foods' ! i = (foods ! i)\<lparr>nutrients := nutrients (foods ! i) @ extra\<rparr>" by auto
    from x sh have "x \<in> set (nutrients (foods' ! i))" by simp
    moreover have "foods' ! i \<in> set foods'" using i len by (simp only: nth_mem)
    ultimately show ?thesis by blast
  next
    assume "x \<in> set ns"
    with add_uncovered_covers[OF assms] show ?thesis by auto
  qed
qed


lemma set_order_uncovered:
  assumes "set_order set_iter"
  shows "distinct (set_iter [n \<leftarrow> remdups universe. n \<notin> covered]) \<and>
         set (set_iter [n \<leftarrow> remdups universe. n \<notin> covered]) = set universe - covered"
proof -
  have "distinct [n \<leftarrow> remdups universe. n \<notin> covered]" by simp
  with assms have "distinct (set_iter [n \<leftarrow> remdups universe. n \<notin> covered]) \<and>
     set (set_iter [n \<leftarrow> remdups universe. n \<notin> covered]) = set [n \<leftarrow> remdups universe. n \<notin> covered]"
    unfolding set_order_def by blast
  then show ?thesis by auto
qed

lemma ensure_coverage_union:
  assumes so: "set_order set_iter"
    and sub: "\<forall>f \<in> set food_items. set (nutrients f) \<subseteq> set universe"
    and run: "ensure_coverage set_iter food_items universe r = (Inr u, foods', r')"
  shows "(\<Union>f \<in> set foods'. set (nutrients f)) = set universe"
proof -
  let ?covered = "set (concat (map nutrients food_items))"
  let ?uncovered = "set_iter [n \<leftarrow> remdups universe. n \<notin> ?covered]"
  from run have a: "add_uncovered ?uncovered food_items r = (Inr u, foods', r')"
    by (simp add: ensure_coverage_def)
  have c: "?covered = (\<Union>f \<in> set food_items. set (nutrients f))" by simp
  from add_uncovered_union[OF a] set_order_uncovered[OF so, where universe = universe and covered = "?covered"]
  have "(\<Union>f \<in> set foods'. set (nutrients f)) = ?covered \<union> (set universe - ?covered)"
    unfolding c by simp
  moreover have "?covered \<subseteq> set universe" using sub unfolding c by blast
  ultimately show ?thesis by blast
qed

lemma set_order_id: "set_order (\<lambda>xs. xs)"
  by (simp add: set_order_def)


lemma ensure_coverage_run:
  "ensure_coverage (\<lambda>xs. xs)
     [\<lparr>name = ''Apple_1'', calories = 2000, nutrients = [''Vitamin1'']\<rparr>,
      \<lparr>name = ''Rice_2'', calories = 2100, nutrients = [''Mineral2'']\<rparr>]
     [''Vitamin1'', ''Mineral2'', ''Protein3''] \<lparr>seq = (\<lambda>n. n), pos = 1\<rparr> =
   (Inr (),
    [\<lparr>name = ''Apple_1'', calories = 2000, nutrients = [''Vitamin1'']\<rparr>,
     \<lparr>name = ''Rice_2'', calories = 2100, nutrients = [''Mineral2'', ''Protein3'']\<rparr>],
    \<lparr>seq = (\<lambda>n. n), pos = 2\<rparr>)"
  by (simp add: ensure_coverage_def choice_def randbelow_def)

text \<open>
  C2. Take any iteration order of the set \<^verbatim>\<open>uncovered\<close> and any foods whose
  nutrient lists are drawn from the universe. With at least one food
  \<^verbatim>\<open>ensure_coverage\<close> returns, and whenever it returns, the union of the foods'
  nutrient sets is exactly the set of the universe: nothing is missing and nothing
  is extra.
\<close>

theorem ensure_coverage_covers_universe:
  assumes "set_order set_iter"
    and "\<forall>f \<in> set food_items. set (nutrients f) \<subseteq> set universe"
  shows "(food_items \<noteq> [] \<longrightarrow>
           (\<exists>foods' r'. ensure_coverage set_iter food_items universe r = (Inr (), foods', r'))) \<and>
         (\<forall>u foods' r'. ensure_coverage set_iter food_items universe r = (Inr u, foods', r') \<longrightarrow>
            (\<Union>f \<in> set foods'. set (nutrients f)) = set universe)"
proof (intro conjI impI allI)
  assume "food_items \<noteq> []"
  then show "\<exists>foods' r'. ensure_coverage set_iter food_items universe r = (Inr (), foods', r')"
    unfolding ensure_coverage_def Let_def by (rule add_uncovered_total)
next
  fix u foods' r'
  assume "ensure_coverage set_iter food_items universe r = (Inr u, foods', r')"
  with assms show "(\<Union>f \<in> set foods'. set (nutrients f)) = set universe"
    by (rule ensure_coverage_union)
qed

theorem ensure_coverage_covers_universe_witness:
  "ensure_coverage (\<lambda>xs. xs)
     [\<lparr>name = ''Apple_1'', calories = 2000, nutrients = [''Vitamin1'']\<rparr>,
      \<lparr>name = ''Rice_2'', calories = 2100, nutrients = [''Mineral2'']\<rparr>]
     [''Vitamin1'', ''Mineral2'', ''Protein3''] \<lparr>seq = (\<lambda>n. n), pos = 1\<rparr> =
   (Inr (),
    [\<lparr>name = ''Apple_1'', calories = 2000, nutrients = [''Vitamin1'']\<rparr>,
     \<lparr>name = ''Rice_2'', calories = 2100, nutrients = [''Mineral2'', ''Protein3'']\<rparr>],
    \<lparr>seq = (\<lambda>n. n), pos = 2\<rparr>) \<and>
   (\<Union>f \<in> set [\<lparr>name = ''Apple_1'', calories = 2000, nutrients = [''Vitamin1'']\<rparr>,
     \<lparr>name = ''Rice_2'', calories = 2100, nutrients = [''Mineral2'', ''Protein3'']\<rparr>].
      set (nutrients f)) = set [''Vitamin1'', ''Mineral2'', ''Protein3'']"
proof -
  have sub: "\<forall>f \<in> set [\<lparr>name = ''Apple_1'', calories = 2000, nutrients = [''Vitamin1'']\<rparr>,
      \<lparr>name = ''Rice_2'', calories = 2100, nutrients = [''Mineral2'']\<rparr>].
      set (nutrients f) \<subseteq> set [''Vitamin1'', ''Mineral2'', ''Protein3'']" by simp
  from ensure_coverage_covers_universe[OF set_order_id sub, of "\<lparr>seq = (\<lambda>n. n), pos = 1\<rparr>"]
    ensure_coverage_run
  show ?thesis by blast
qed

subsection \<open>The calorie budget\<close>

lemma uniform_range:
  assumes "a \<le> b"
  shows "a \<le> fst (uniform a b r) \<and> fst (uniform a b r) \<le> b \<and>
         snd (uniform a b r) = r\<lparr>pos := pos r + 1\<rparr>"
proof -
  let ?u = "real (seq r (pos r) mod 2 ^ 53) / 2 ^ 53"
  have "seq r (pos r) mod 2 ^ 53 < (2::nat) ^ 53" by simp
  then have "real (seq r (pos r) mod 2 ^ 53) < 2 ^ 53"
    by (metis of_nat_less_iff of_nat_numeral of_nat_power)
  then have u: "0 \<le> ?u" "?u \<le> 1" by simp_all
  have "0 \<le> (b - a) * ?u" using assms u by simp
  moreover have "(b - a) * ?u \<le> (b - a) * 1"
    using assms u by (intro mult_left_mono) simp_all
  ultimately show ?thesis by (simp add: uniform_def random_def)
qed

lemma calculate_max_calories_run:
  "calculate_max_calories
     [\<lparr>name = ''Apple_1'', calories = 2000, nutrients = [''Vitamin1'']\<rparr>,
      \<lparr>name = ''Rice_2'', calories = 2500, nutrients = [''Mineral2'', ''Protein3'']\<rparr>]
     [''Vitamin1'', ''Mineral2'', ''Protein3'', ''Fiber4''] \<lparr>seq = (\<lambda>n. 2 ^ 52), pos = 0\<rparr> =
   (Inr 4500, \<lparr>seq = (\<lambda>n. 2 ^ 52), pos = 1\<rparr>)"
  by (simp add: calculate_max_calories_def uniform_def random_def Let_def)


lemma calculate_max_calories_run_candidate:
  "calculate_max_calories
     [\<lparr>name = ''Apple_1'', calories = 2000, nutrients = [''Vitamin1'']\<rparr>,
      \<lparr>name = ''Rice_2'', calories = 2200, nutrients = [''Mineral2'']\<rparr>,
      \<lparr>name = ''Tofu_3'', calories = 2400, nutrients = [''Vitamin1'', ''Mineral2'']\<rparr>]
     [''Vitamin1'', ''Mineral2''] \<lparr>seq = (\<lambda>n. 2 ^ 52), pos = 0\<rparr> =
   (Inr 3300, \<lparr>seq = (\<lambda>n. 2 ^ 52), pos = 1\<rparr>)"
  by (simp add: calculate_max_calories_def uniform_def random_def Let_def)

lemma calculate_max_calories_run_low_draw:
  "calculate_max_calories
     [\<lparr>name = ''Apple_1'', calories = 2000, nutrients = [''Vitamin1'']\<rparr>,
      \<lparr>name = ''Rice_2'', calories = 2200, nutrients = [''Mineral2'']\<rparr>,
      \<lparr>name = ''Tofu_3'', calories = 2400, nutrients = [''Vitamin1'', ''Mineral2'']\<rparr>]
     [''Vitamin1'', ''Mineral2''] \<lparr>seq = (\<lambda>n. 0), pos = 0\<rparr> =
   (Inr 2640, \<lparr>seq = (\<lambda>n. 0), pos = 1\<rparr>)"
  by (simp add: calculate_max_calories_def uniform_def random_def Let_def)

lemma uniform_run_half:
  "uniform 0.4 0.6 \<lparr>seq = (\<lambda>n. 2 ^ 52), pos = 0\<rparr> = (0.5, \<lparr>seq = (\<lambda>n. 2 ^ 52), pos = 1\<rparr>)"
  by (simp add: uniform_def random_def)

text \<open>
  C8. For a non-empty food list (and any universe) \<^verbatim>\<open>calculate_max_calories\<close>
  makes one draw, the fraction \<^verbatim>\<open>random.uniform(0.4, 0.6)\<close>, which lies in
  \<open>[0.4, 0.6]\<close>, and returns \<open>max(candidate, floor_estimate)\<close>: the candidate is the
  total of the calories times the drawn fraction, the floor estimate is
  \<open>(|universe| div 3 + 1)\<close> times the mean calories per food. So the result is at least
  the floor estimate.
\<close>

theorem calculate_max_calories_value:
  assumes "food_items \<noteq> []"
  shows "\<exists>fraction r'.
     uniform 0.4 0.6 r = (fraction, r') \<and>
     fraction = 0.4 + (0.6 - 0.4) * (real (seq r (pos r) mod 2 ^ 53) / 2 ^ 53) \<and>
     r' = r\<lparr>pos := pos r + 1\<rparr> \<and>
     0.4 \<le> fraction \<and> fraction \<le> 0.6 \<and>
     calculate_max_calories food_items universe r =
       (Inr (max (real_of_int (sum_list (map calories food_items)) * fraction)
                 (real_of_int (int (length universe) div 3 + 1)
                    * (real_of_int (sum_list (map calories food_items))
                         / real (length food_items)))),
        r') \<and>
     real_of_int (int (length universe) div 3 + 1)
        * (real_of_int (sum_list (map calories food_items)) / real (length food_items))
     \<le> max (real_of_int (sum_list (map calories food_items)) * fraction)
            (real_of_int (int (length universe) div 3 + 1)
               * (real_of_int (sum_list (map calories food_items))
                    / real (length food_items)))"
proof -
  define fraction :: real
    where "fraction = 0.4 + (0.6 - 0.4) * (real (seq r (pos r) mod 2 ^ 53) / 2 ^ 53)"
  have u: "uniform 0.4 0.6 r = (fraction, r\<lparr>pos := pos r + 1\<rparr>)"
    unfolding fraction_def uniform_def random_def Let_def by simp
  have ab: "(0.4::real) \<le> 0.6" by simp
  from uniform_range[OF ab, of r] have f: "0.4 \<le> fraction" "fraction \<le> 0.6"
    unfolding u by simp_all
  have c: "calculate_max_calories food_items universe r =
       (Inr (max (real_of_int (sum_list (map calories food_items)) * fraction)
                 (real_of_int (int (length universe) div 3 + 1)
                    * (real_of_int (sum_list (map calories food_items))
                         / real (length food_items)))),
        r\<lparr>pos := pos r + 1\<rparr>)"
    unfolding calculate_max_calories_def Let_def u using assms by simp
  show ?thesis
    apply (rule exI[of _ fraction])
    apply (rule exI[of _ "r\<lparr>pos := pos r + 1\<rparr>"])
    apply (intro conjI)
          apply (rule u)
         apply (rule fraction_def)
        apply (rule refl)
       apply (rule f(1))
      apply (rule f(2))
     apply (rule c)
    apply (rule max.cobounded2)
    done
qed

theorem calculate_max_calories_value_witness:
  "uniform 0.4 0.6 \<lparr>seq = (\<lambda>n. 2 ^ 52), pos = 0\<rparr> = (0.5, \<lparr>seq = (\<lambda>n. 2 ^ 52), pos = 1\<rparr>) \<and>
   calculate_max_calories
     [\<lparr>name = ''Apple_1'', calories = 2000, nutrients = [''Vitamin1'']\<rparr>,
      \<lparr>name = ''Rice_2'', calories = 2200, nutrients = [''Mineral2'']\<rparr>,
      \<lparr>name = ''Tofu_3'', calories = 2400, nutrients = [''Vitamin1'', ''Mineral2'']\<rparr>]
     [''Vitamin1'', ''Mineral2''] \<lparr>seq = (\<lambda>n. 2 ^ 52), pos = 0\<rparr> =
   (Inr (max (6600 * 0.5) (1 * (6600 / 3))), \<lparr>seq = (\<lambda>n. 2 ^ 52), pos = 1\<rparr>) \<and>
   max (6600 * 0.5) (1 * (6600 / 3)) = (3300::real) \<and>
   calculate_max_calories
     [\<lparr>name = ''Apple_1'', calories = 2000, nutrients = [''Vitamin1'']\<rparr>,
      \<lparr>name = ''Rice_2'', calories = 2200, nutrients = [''Mineral2'']\<rparr>,
      \<lparr>name = ''Tofu_3'', calories = 2400, nutrients = [''Vitamin1'', ''Mineral2'']\<rparr>]
     [''Vitamin1'', ''Mineral2''] \<lparr>seq = (\<lambda>n. 0), pos = 0\<rparr> =
   (Inr 2640, \<lparr>seq = (\<lambda>n. 0), pos = 1\<rparr>) \<and>
   calculate_max_calories
     [\<lparr>name = ''Apple_1'', calories = 2000, nutrients = [''Vitamin1'']\<rparr>,
      \<lparr>name = ''Rice_2'', calories = 2500, nutrients = [''Mineral2'', ''Protein3'']\<rparr>]
     [''Vitamin1'', ''Mineral2'', ''Protein3'', ''Fiber4''] \<lparr>seq = (\<lambda>n. 2 ^ 52), pos = 0\<rparr> =
   (Inr 4500, \<lparr>seq = (\<lambda>n. 2 ^ 52), pos = 1\<rparr>)"
proof -
  have ne: "[\<lparr>name = ''Apple_1'', calories = 2000, nutrients = [''Vitamin1'']\<rparr>,
      \<lparr>name = ''Rice_2'', calories = 2200, nutrients = [''Mineral2'']\<rparr>,
      \<lparr>name = ''Tofu_3'', calories = 2400, nutrients = [''Vitamin1'', ''Mineral2'']\<rparr>] \<noteq> []"
    by simp
  from calculate_max_calories_value[OF ne,
      of "\<lparr>seq = (\<lambda>n. 2 ^ 52), pos = 0\<rparr>" "[''Vitamin1'', ''Mineral2'']"]
  obtain fraction r' where
    u: "uniform 0.4 0.6 \<lparr>seq = (\<lambda>n. 2 ^ 52), pos = 0\<rparr> = (fraction, r')" and
    v: "calculate_max_calories
     [\<lparr>name = ''Apple_1'', calories = 2000, nutrients = [''Vitamin1'']\<rparr>,
      \<lparr>name = ''Rice_2'', calories = 2200, nutrients = [''Mineral2'']\<rparr>,
      \<lparr>name = ''Tofu_3'', calories = 2400, nutrients = [''Vitamin1'', ''Mineral2'']\<rparr>]
     [''Vitamin1'', ''Mineral2''] \<lparr>seq = (\<lambda>n. 2 ^ 52), pos = 0\<rparr> =
      (Inr (max (real_of_int (sum_list (map calories
          [\<lparr>name = ''Apple_1'', calories = 2000, nutrients = [''Vitamin1'']\<rparr>,
           \<lparr>name = ''Rice_2'', calories = 2200, nutrients = [''Mineral2'']\<rparr>,
           \<lparr>name = ''Tofu_3'', calories = 2400, nutrients = [''Vitamin1'', ''Mineral2'']\<rparr>]))
            * fraction)
          (real_of_int (int (length [''Vitamin1'', ''Mineral2'']) div 3 + 1)
            * (real_of_int (sum_list (map calories
          [\<lparr>name = ''Apple_1'', calories = 2000, nutrients = [''Vitamin1'']\<rparr>,
           \<lparr>name = ''Rice_2'', calories = 2200, nutrients = [''Mineral2'']\<rparr>,
           \<lparr>name = ''Tofu_3'', calories = 2400, nutrients = [''Vitamin1'', ''Mineral2'']\<rparr>]))
               / real (length
          [\<lparr>name = ''Apple_1'', calories = 2000, nutrients = [''Vitamin1'']\<rparr>,
           \<lparr>name = ''Rice_2'', calories = 2200, nutrients = [''Mineral2'']\<rparr>,
           \<lparr>name = ''Tofu_3'', calories = 2400, nutrients = [''Vitamin1'', ''Mineral2'']\<rparr>])))),
       r')"
    by blast
  from u have fr: "fraction = 0.5" and r': "r' = \<lparr>seq = (\<lambda>n. 2 ^ 52), pos = 1\<rparr>"
    unfolding uniform_run_half by simp_all
  have 1: "calculate_max_calories
     [\<lparr>name = ''Apple_1'', calories = 2000, nutrients = [''Vitamin1'']\<rparr>,
      \<lparr>name = ''Rice_2'', calories = 2200, nutrients = [''Mineral2'']\<rparr>,
      \<lparr>name = ''Tofu_3'', calories = 2400, nutrients = [''Vitamin1'', ''Mineral2'']\<rparr>]
     [''Vitamin1'', ''Mineral2''] \<lparr>seq = (\<lambda>n. 2 ^ 52), pos = 0\<rparr> =
   (Inr (max (6600 * 0.5) (1 * (6600 / 3))), \<lparr>seq = (\<lambda>n. 2 ^ 52), pos = 1\<rparr>)"
    using v unfolding fr r' by simp
  have 2: "max (6600 * 0.5) (1 * (6600 / 3)) = (3300::real)" by simp
  from uniform_run_half 1 2 calculate_max_calories_run_low_draw calculate_max_calories_run
  show ?thesis by (intro conjI)
qed

subsection \<open>The nutrient names are pairwise different\<close>

lemma char_of_inj_small:
  "m < 256 \<Longrightarrow> n < 256 \<Longrightarrow> char_of (m::nat) = char_of n \<Longrightarrow> m = n"
  by simp

lemma utf8_length:
  "length (utf8 c) = (if c < 128 then 1 else if c < 2048 then 2 else if c < 65536 then 3 else 4)"
  by (simp add: utf8_def)

lemma utf8_nonempty: "utf8 c \<noteq> []" "[] \<noteq> utf8 c"
  by (simp_all add: utf8_def)

lemma utf8_inj:
  assumes c: "c < 1114112" and d: "d < 1114112" and eq: "utf8 c = utf8 d"
  shows "c = d"
proof -
  from eq have len: "length (utf8 c) = length (utf8 d)" by simp
  consider (a) "c < 128" "d < 128" | (b) "128 \<le> c" "c < 2048" "128 \<le> d" "d < 2048"
    | (c) "2048 \<le> c" "c < 65536" "2048 \<le> d" "d < 65536"
    | (d) "65536 \<le> c" "65536 \<le> d"
    using len unfolding utf8_length by (auto split: if_splits)
  then show ?thesis
  proof cases
    case a
    with eq have "char_of c = char_of d" by (simp add: utf8_def)
    with a show ?thesis by (intro char_of_inj_small) simp_all
  next
    case b
    with eq have e1: "char_of (192 + c div 64) = char_of (192 + d div 64)"
      and e2: "char_of (128 + c mod 64) = char_of (128 + d mod 64)"
      by (simp_all add: utf8_def)
    have "c div 64 < 32" "d div 64 < 32" using b by simp_all
    then have "192 + c div 64 = 192 + d div 64"
      using e1 by (intro char_of_inj_small) simp_all
    moreover have "c mod 64 < 64" "d mod 64 < 64" by simp_all
    then have "128 + c mod 64 = 128 + d mod 64"
      using e2 by (intro char_of_inj_small) simp_all
    ultimately have "c div 64 = d div 64" "c mod 64 = d mod 64" by simp_all
    then show ?thesis by (metis div_mult_mod_eq)
  next
    case c
    with eq have e1: "char_of (224 + c div 4096) = char_of (224 + d div 4096)"
      and e2: "char_of (128 + c div 64 mod 64) = char_of (128 + d div 64 mod 64)"
      and e3: "char_of (128 + c mod 64) = char_of (128 + d mod 64)"
      by (simp_all add: utf8_def)
    have "c div 4096 < 16" "d div 4096 < 16" using c by simp_all
    then have "224 + c div 4096 = 224 + d div 4096"
      using e1 by (intro char_of_inj_small) simp_all
    moreover have "c div 64 mod 64 < 64" "d div 64 mod 64 < 64" by simp_all
    then have "128 + c div 64 mod 64 = 128 + d div 64 mod 64"
      using e2 by (intro char_of_inj_small) simp_all
    moreover have "c mod 64 < 64" "d mod 64 < 64" by simp_all
    then have "128 + c mod 64 = 128 + d mod 64"
      using e3 by (intro char_of_inj_small) simp_all
    ultimately have h: "c div 4096 = d div 4096" "c div 64 mod 64 = d div 64 mod 64"
      "c mod 64 = d mod 64" by simp_all
    have "c div 64 div 64 = d div 64 div 64" using h(1) by (simp add: div_mult2_eq[symmetric])
    with h(2) have "c div 64 = d div 64" by (metis div_mult_mod_eq)
    with h(3) show ?thesis by (metis div_mult_mod_eq)
  next
    case d
    with eq have e0: "char_of (240 + c div 262144) = char_of (240 + d div 262144)"
      and e1: "char_of (128 + c div 4096 mod 64) = char_of (128 + d div 4096 mod 64)"
      and e2: "char_of (128 + c div 64 mod 64) = char_of (128 + d div 64 mod 64)"
      and e3: "char_of (128 + c mod 64) = char_of (128 + d mod 64)"
      by (simp_all add: utf8_def)
    have "c div 262144 < 5" "d div 262144 < 5" using assms(1,2) by simp_all
    then have "240 + c div 262144 = 240 + d div 262144"
      using e0 by (intro char_of_inj_small) simp_all
    moreover have "c div 4096 mod 64 < 64" "d div 4096 mod 64 < 64" by simp_all
    then have "128 + c div 4096 mod 64 = 128 + d div 4096 mod 64"
      using e1 by (intro char_of_inj_small) simp_all
    moreover have "c div 64 mod 64 < 64" "d div 64 mod 64 < 64" by simp_all
    then have "128 + c div 64 mod 64 = 128 + d div 64 mod 64"
      using e2 by (intro char_of_inj_small) simp_all
    moreover have "c mod 64 < 64" "d mod 64 < 64" by simp_all
    then have "128 + c mod 64 = 128 + d mod 64"
      using e3 by (intro char_of_inj_small) simp_all
    ultimately have h: "c div 262144 = d div 262144" "c div 4096 mod 64 = d div 4096 mod 64"
      "c div 64 mod 64 = d div 64 mod 64" "c mod 64 = d mod 64" by simp_all
    have "c div 4096 div 64 = d div 4096 div 64" using h(1) by (simp add: div_mult2_eq[symmetric])
    with h(2) have "c div 4096 = d div 4096" by (metis div_mult_mod_eq)
    then have "c div 64 div 64 = d div 64 div 64" by (simp add: div_mult2_eq[symmetric])
    with h(3) have "c div 64 = d div 64" by (metis div_mult_mod_eq)
    with h(4) show ?thesis by (metis div_mult_mod_eq)
  qed
qed


lemma last_str_nat_index:
  assumes "k < 10"
  shows "str_nat (k + 1) \<noteq> [] \<and> last (str_nat (k + 1)) = ''1234567890'' ! k"
proof -
  from assms have "k = 0 \<or> k = 1 \<or> k = 2 \<or> k = 3 \<or> k = 4 \<or> k = 5 \<or> k = 6 \<or> k = 7
      \<or> k = 8 \<or> k = 9" by arith
  then show ?thesis
    by (elim disjE) (simp_all add: str_nat.simps digit_char_def)
qed

lemma index_digit_inj:
  assumes "k < 10" "k' < 10" "''1234567890'' ! k = ''1234567890'' ! k'"
  shows "k = k'"
proof -
  have "distinct ''1234567890''" by simp
  moreover have "k < length ''1234567890''" "k' < length ''1234567890''" using assms by simp_all
  ultimately show ?thesis using assms(3) by (simp only: nth_eq_iff_index_eq)
qed

lemma nutrient_name_inj:
  assumes i: "i < 11140470" and j: "j < 11140470" and eq: "nutrient_name i = nutrient_name j"
  shows "i = j"
proof -
  let ?S = "\<lambda>i::nat. if 1 \<le> i div 10 then utf8 (of_char CHR ''A'' + i div 10) else []"
  from eq nutrient_name_eq[OF i] nutrient_name_eq[OF j]
  have e: "prefixes ! (i mod 10) @ ?S i @ str_nat (i mod 10 + 1)
         = prefixes ! (j mod 10) @ ?S j @ str_nat (j mod 10 + 1)" by simp
  have ki: "i mod 10 < 10" and kj: "j mod 10 < 10" by simp_all
  from last_str_nat_index[OF ki] have
    li: "last (prefixes ! (i mod 10) @ ?S i @ str_nat (i mod 10 + 1)) = ''1234567890'' ! (i mod 10)"
    by simp
  from last_str_nat_index[OF kj] have
    lj: "last (prefixes ! (j mod 10) @ ?S j @ str_nat (j mod 10 + 1)) = ''1234567890'' ! (j mod 10)"
    by simp
  from e li lj have "''1234567890'' ! (i mod 10) = ''1234567890'' ! (j mod 10)" by simp
  from index_digit_inj[OF ki kj this] have m: "i mod 10 = j mod 10" .
  from e m have s: "?S i = ?S j" by simp
  have "i div 10 = j div 10"
  proof (cases "1 \<le> i div 10")
    case True
    with s have j1: "1 \<le> j div 10" by (auto split: if_splits simp: utf8_nonempty)
    from True j1 s have u: "utf8 (65 + i div 10) = utf8 (65 + j div 10)" by simp
    have "65 + i div 10 < 1114112" "65 + j div 10 < 1114112" using i j by simp_all
    from utf8_inj[OF this u] show ?thesis by simp
  next
    case False
    with s have "\<not> 1 \<le> j div 10" by (auto split: if_splits simp: utf8_nonempty)
    with False show ?thesis by simp
  qed
  with m show ?thesis by (metis div_mult_mod_eq)
qed

lemma generate_universe_distinct:
  assumes "generate_universe n = Inr us"
  shows "distinct us"
proof -
  from assms have u: "universe_loop [0..<nat n] [] = Inr us" by (simp add: generate_universe_def)
  from universe_loop_Inr[OF u] have len: "length us = nat n"
    and nth: "\<forall>j < nat n. nutrient_name j = Inr (us ! j)" by auto
  have small: "\<And>i. i < nat n \<Longrightarrow> i < 11140470"
  proof (rule ccontr)
    fix i assume i: "i < nat n" and "\<not> i < 11140470"
    then have "11140470 < nat n" by simp
    with nth have "nutrient_name 11140470 = Inr (us ! 11140470)" by blast
    then show False
      by (simp add: nutrient_name_def prefixes_def py_chr_def)
  qed
  show ?thesis unfolding distinct_conv_nth len
  proof (intro allI impI)
    fix i j assume i: "i < nat n" and j: "j < nat n" and ne: "i \<noteq> j"
    show "us ! i \<noteq> us ! j"
    proof
      assume "us ! i = us ! j"
      with nth i j have "nutrient_name i = nutrient_name j" by simp
      from nutrient_name_inj[OF small[OF i] small[OF j] this] ne show False by simp
    qed
  qed
qed


subsection \<open>Evaluating the sampler\<close>

lemma sample_pool_numeral:
  "sample_pool pool (numeral k) r =
     (let (j, r1) = randbelow (length pool) r;
          x = pool ! j;
          (xs, r2) = sample_pool (butlast (pool[j := last pool])) (pred_numeral k) r1
      in (x # xs, r2))"
  by (simp add: numeral_eq_Suc)

lemma sample_pool_one:
  "sample_pool pool 1 r =
     (let (j, r1) = randbelow (length pool) r in ([pool ! j], r1))"
  by (simp add: Let_def split: prod.splits)

lemmas setcover_eval = generate_food_item_def sample_def sample_pool_numeral sample_pool_one
  food_types_def MIN_CALORIES_def MAX_CALORIES_def str_int_def str_nat.simps digit_char_def Let_def

lemma generate_universe_4:
  "generate_universe 4 = Inr [''Vitamin1'', ''Mineral2'', ''Protein3'', ''Fiber4'']"
  by (simp add: generate_universe_def upt_conv_Cons nutrient_name_def prefixes_def
      str_nat.simps digit_char_def)

lemma generate_food_items_run:
  "generate_food_items [0] [''Vitamin1'', ''Mineral2'', ''Protein3'', ''Fiber4''] 3 10 []
     \<lparr>seq = (\<lambda>n. 0), pos = 0\<rparr> =
   (Inr [\<lparr>name = ''Apple_1'', calories = 2000,
          nutrients = [''Vitamin1'', ''Fiber4'', ''Protein3'']\<rparr>], \<lparr>seq = (\<lambda>n. 0), pos = 6\<rparr>)"
  by (simp add: rng_eval setcover_eval)

lemma ensure_coverage_run_2:
  "ensure_coverage (\<lambda>xs. xs)
     [\<lparr>name = ''Apple_1'', calories = 2000, nutrients = [''Vitamin1'', ''Fiber4'', ''Protein3'']\<rparr>]
     [''Vitamin1'', ''Mineral2'', ''Protein3'', ''Fiber4''] \<lparr>seq = (\<lambda>n. 0), pos = 6\<rparr> =
   (Inr (),
    [\<lparr>name = ''Apple_1'', calories = 2000,
      nutrients = [''Vitamin1'', ''Fiber4'', ''Protein3'', ''Mineral2'']\<rparr>],
    \<lparr>seq = (\<lambda>n. 0), pos = 7\<rparr>)"
  by (simp add: ensure_coverage_def choice_def randbelow_def)

text \<open>
  C10. Along the stages of \<^verbatim>\<open>generate_test_file\<close> (the universe, the sampled
  foods, the repair with any iteration order of the uncovered set), no food's
  nutrient list has a duplicate, neither as sampled nor after the repair, also when
  the repair raises.
\<close>

theorem nutrient_lists_distinct:
  assumes so: "set_order set_iter"
    and gu: "generate_universe num_nutrients = Inr universe"
    and gf: "generate_food_items ids universe min_nutrients max_nutrients [] r = (Inr sampled, r1)"
    and ec: "ensure_coverage set_iter sampled universe r1 = (res, food_items, r2)"
  shows "(\<forall>f \<in> set sampled. distinct (nutrients f)) \<and>
         (\<forall>f \<in> set food_items. distinct (nutrients f))"
proof -
  have du: "distinct universe" using gu by (rule generate_universe_distinct)
  have "\<forall>f \<in> set sampled. set (nutrients f) \<subseteq> set universe \<and>
          (distinct universe \<longrightarrow> distinct (nutrients f))"
    by (rule generate_food_items_Inr[OF gf]) simp
  with du have ds: "\<forall>f \<in> set sampled. distinct (nutrients f)" by blast
  let ?covered = "set (concat (map nutrients sampled))"
  let ?uncovered = "set_iter [n \<leftarrow> remdups universe. n \<notin> ?covered]"
  from ec have a: "add_uncovered ?uncovered sampled r1 = (res, food_items, r2)"
    by (simp add: ensure_coverage_def)
  from set_order_uncovered[OF so, where universe = universe and covered = "?covered"]
  have dun: "distinct ?uncovered" and sun: "set ?uncovered = set universe - ?covered" by auto
  from add_uncovered_shape[OF a] have len: "length food_items = length sampled" and
    sh: "\<forall>i < length sampled. \<exists>extra.
      food_items ! i = (sampled ! i)\<lparr>nutrients := nutrients (sampled ! i) @ extra\<rparr> \<and>
      set extra \<subseteq> set ?uncovered \<and> (distinct ?uncovered \<longrightarrow> distinct extra)" by auto
  have "\<forall>f \<in> set food_items. distinct (nutrients f)"
  proof
    fix f assume "f \<in> set food_items"
    then obtain i where i: "i < length sampled" and f: "food_items ! i = f"
      using len by (auto simp: in_set_conv_nth)
    from sh i obtain extra where
      e1: "food_items ! i = (sampled ! i)\<lparr>nutrients := nutrients (sampled ! i) @ extra\<rparr>" and
      e2: "set extra \<subseteq> set ?uncovered" and e3: "distinct extra" using dun by blast
    have si: "sampled ! i \<in> set sampled" using i by simp
    then have "distinct (nutrients (sampled ! i))" using ds by blast
    moreover have "set (nutrients (sampled ! i)) \<subseteq> ?covered" using si by auto
    then have "set (nutrients (sampled ! i)) \<inter> set extra = {}" using e2 sun by blast
    ultimately have "distinct (nutrients (sampled ! i) @ extra)" using e3 by simp
    with e1 f show "distinct (nutrients f)" by simp
  qed
  with ds show ?thesis by blast
qed

theorem nutrient_lists_distinct_witness:
  "generate_universe 4 = Inr [''Vitamin1'', ''Mineral2'', ''Protein3'', ''Fiber4''] \<and>
   generate_food_items [0] [''Vitamin1'', ''Mineral2'', ''Protein3'', ''Fiber4''] 3 10 []
     \<lparr>seq = (\<lambda>n. 0), pos = 0\<rparr> =
   (Inr [\<lparr>name = ''Apple_1'', calories = 2000,
          nutrients = [''Vitamin1'', ''Fiber4'', ''Protein3'']\<rparr>], \<lparr>seq = (\<lambda>n. 0), pos = 6\<rparr>) \<and>
   ensure_coverage (\<lambda>xs. xs)
     [\<lparr>name = ''Apple_1'', calories = 2000, nutrients = [''Vitamin1'', ''Fiber4'', ''Protein3'']\<rparr>]
     [''Vitamin1'', ''Mineral2'', ''Protein3'', ''Fiber4''] \<lparr>seq = (\<lambda>n. 0), pos = 6\<rparr> =
   (Inr (),
    [\<lparr>name = ''Apple_1'', calories = 2000,
      nutrients = [''Vitamin1'', ''Fiber4'', ''Protein3'', ''Mineral2'']\<rparr>],
    \<lparr>seq = (\<lambda>n. 0), pos = 7\<rparr>) \<and>
   distinct [''Vitamin1'', ''Fiber4'', ''Protein3''] \<and>
   distinct [''Vitamin1'', ''Fiber4'', ''Protein3'', ''Mineral2'']"
  using nutrient_lists_distinct[OF set_order_id generate_universe_4 generate_food_items_run
      ensure_coverage_run_2]
    generate_universe_4 generate_food_items_run ensure_coverage_run_2
  by simp

section \<open>Configurations of non-positive scale\<close>

lemma generate_airports_nonpos: "n \<le> 0 \<Longrightarrow> generate_airports n = []"
  by (simp add: generate_airports_def)

lemma generate_airports_1: "generate_airports 1 = [''JFK'']"
  by (simp add: generate_airports_def airport_codes_def)

lemma generate_airports_two:
  assumes "2 \<le> n"
  shows "2 \<le> card (set (generate_airports n))"
proof -
  have n: "2 \<le> nat n" using assms by simp
  have "[0..<nat n] = 0 # Suc 0 # [Suc (Suc 0)..<nat n]"
    using n by (simp add: upt_conv_Cons)
  then have "generate_airports n = ''JFK'' # ''LAX'' # map (\<lambda>i. if i < length airport_codes then airport_codes ! i else ''AP'' @ fmt_02d (i + 1)) [Suc (Suc 0)..<nat n]"
    by (simp add: generate_airports_def airport_codes_def)
  then have "{''JFK'', ''LAX''} \<subseteq> set (generate_airports n)" by simp
  then have "card {''JFK'', ''LAX''} \<le> card (set (generate_airports n))"
    by (intro card_mono) simp_all
  then show ?thesis by simp
qed

lemma schedule_loop_empty_airports:
  "0 < n \<Longrightarrow> schedule_loop n [] acc r = (Inl IndexError, r)"
  by (cases n) (simp_all add: sbind_def sample_flight_def choice_def)

lemma schedule_loop_one_airport:
  "0 < n \<Longrightarrow> schedule_loop n [''JFK''] acc r = (Inl IndexError, r\<lparr>pos := pos r + 1\<rparr>)"
  by (cases n) (simp_all add: sbind_def sample_flight_def choice_def randbelow_def)

lemma crew_no_airports:
  assumes "num_airports \<le> 0" "1 \<le> num_flights"
  shows "crew_generate_test_file num_airports num_flights fs r = (Inl IndexError, fs, r)"
proof -
  have "0 < nat num_flights" using assms by simp
  from schedule_loop_empty_airports[OF this] show ?thesis
    by (simp add: crew_generate_test_file_def generate_airports_nonpos[OF assms(1)]
        generate_flight_schedule_def sbind_def)
qed

lemma crew_one_airport_flights:
  assumes "1 \<le> num_flights"
  shows "crew_generate_test_file 1 num_flights fs r = (Inl IndexError, fs, r\<lparr>pos := pos r + 1\<rparr>)"
proof -
  have "0 < nat num_flights" using assms by simp
  from schedule_loop_one_airport[OF this] show ?thesis
    by (simp add: crew_generate_test_file_def generate_airports_1
        generate_flight_schedule_def sbind_def)
qed

lemma generate_flight_schedule_none:
  "num_flights \<le> 0 \<Longrightarrow> generate_flight_schedule airports num_flights r = (Inr [], r)"
  by (simp add: generate_flight_schedule_def sbind_def sreturn_def)

lemma crew_one_airport_no_flights:
  assumes "num_flights \<le> 0"
  shows "crew_generate_test_file 1 num_flights fs r = (Inl IndexError, fs, r)"
  by (simp add: crew_generate_test_file_def generate_airports_1
      generate_flight_schedule_none[OF assms] ensure_connectivity_def repair_flight_def
      sbind_def choice_def)

lemma crew_no_flights_ok:
  assumes "num_flights \<le> 0" "num_airports \<le> 0 \<or> 2 \<le> num_airports"
  shows "\<exists>flights r1.
     map departure_airport flights = generate_airports num_airports \<and>
     crew_generate_test_file num_airports num_flights fs r =
       (Inr (''crewscheduling_a'' @ str_int num_airports @ ''_f'' @ str_int num_flights @ ''.csv'',
             num_airports, int (length flights)),
        fs(DATA_DIR @ ''/'' @ ''crewscheduling_a'' @ str_int num_airports @ ''_f''
              @ str_int num_flights @ ''.csv'' \<mapsto>
             \<lparr>file_airports = generate_airports num_airports, file_flights = flights\<rparr>),
        r1)"
proof -
  let ?airports = "generate_airports num_airports"
  have "\<exists>flights r1. ensure_connectivity ?airports [] r = (Inr (), flights, r1) \<and>
          map departure_airport flights = ?airports"
  proof (cases "num_airports \<le> 0")
    case True
    then show ?thesis by (simp add: generate_airports_nonpos ensure_connectivity_def)
  next
    case False
    with assms(2) have "2 \<le> num_airports" by simp
    from connect_loop_total[OF generate_airports_two[OF this], of ?airports "{}" "[]" r]
    show ?thesis by (auto simp: ensure_connectivity_def)
  qed
  then obtain flights r1 where e: "ensure_connectivity ?airports [] r = (Inr (), flights, r1)"
    and m: "map departure_airport flights = ?airports"
    by blast
  have "crew_generate_test_file num_airports num_flights fs r =
       (Inr (''crewscheduling_a'' @ str_int num_airports @ ''_f'' @ str_int num_flights @ ''.csv'',
             num_airports, int (length flights)),
        fs(DATA_DIR @ ''/'' @ ''crewscheduling_a'' @ str_int num_airports @ ''_f''
              @ str_int num_flights @ ''.csv'' \<mapsto>
             \<lparr>file_airports = ?airports, file_flights = flights\<rparr>),
        r1)"
    unfolding crew_generate_test_file_def Let_def generate_flight_schedule_none[OF assms(1)]
      prod.case sum.case e
    by simp
  with m show ?thesis by blast
qed

lemma crew_error_keeps_files:
  "crew_generate_test_file num_airports num_flights fs r = (Inl e, fs1, r1) \<Longrightarrow> fs1 = fs"
  by (auto simp: crew_generate_test_file_def Let_def split: prod.splits sum.splits)

lemma setcover_error_files:
  assumes "setcover_generate_test_file set_iter num_foods num_nutrients fs r = (Inl e, fs1, r1)"
  shows "fs1 = fs \<or>
     (e = UnicodeEncodeError \<and>
      fs1 = fs(DATA_DIR @ ''/'' @ ''setcover_f'' @ str_int num_foods @ ''_n''
                 @ str_int num_nutrients @ ''.csv'' \<mapsto> Truncated) \<and>
      (\<exists>universe. generate_universe num_nutrients = Inr universe \<and>
         list_ex has_surrogate universe))"
  using assms unfolding setcover_generate_test_file_def Let_def
  by (auto split: prod.splits sum.splits if_splits)

lemma generate_universe_returns:
  assumes "n \<le> 11140470"
  shows "\<exists>us. generate_universe n = Inr us \<and> length us = nat n"
proof -
  have "\<And>i. i < nat n \<Longrightarrow> i < 11140470" using assms by linarith
  then have "\<forall>i \<in> set [0..<nat n]. \<exists>nm. nutrient_name i = Inr nm"
    using nutrient_name_eq by auto
  then obtain us where us: "universe_loop [0..<nat n] [] = Inr us"
    using universe_loop_total by blast
  from universe_loop_Inr[OF us] have "length us = nat n" by simp
  with us show ?thesis by (simp add: generate_universe_def)
qed

lemma universe_loop_skip:
  "\<forall>i \<in> set is1. \<exists>nm. nutrient_name i = Inr nm \<Longrightarrow>
   \<exists>acc'. universe_loop (is1 @ rest) acc = universe_loop rest acc'"
proof (induction is1 arbitrary: acc)
  case Nil
  then show ?case by auto
next
  case (Cons i is1)
  then obtain nm where nm: "nutrient_name i = Inr nm" by auto
  from Cons.IH[of "acc @ [nm]"] Cons.prems obtain acc' where
    "universe_loop (is1 @ rest) (acc @ [nm]) = universe_loop rest acc'" by auto
  with nm show ?case by auto
qed

lemma nutrient_name_too_large: "nutrient_name 11140470 = Inl ValueError"
  by (simp add: nutrient_name_def prefixes_def py_chr_def)

lemma generate_universe_too_large:
  assumes "11140470 < n"
  shows "generate_universe n = Inl ValueError"
proof -
  have "[0..<nat n] = [0..<11140470] @ 11140470 # [11140471..<nat n]"
  proof -
    define k where "k = nat n - 11140470"
    have k: "nat n = 11140470 + k" and k0: "0 < k"
      using assms unfolding k_def by linarith+
    have "[0..<11140470 + k] = [0..<11140470] @ [11140470..<11140470 + k]"
      by (rule upt_add_eq_append) simp
    moreover have "[11140470..<11140470 + k] = 11140470 # [11140471..<11140470 + k]"
      using k0 by (subst upt_rec) simp
    ultimately show ?thesis unfolding k by simp
  qed
  moreover have "\<forall>i \<in> set [0..<11140470]. \<exists>nm. nutrient_name i = Inr nm"
    using nutrient_name_eq by auto
  from universe_loop_skip[OF this, of "11140470 # [11140471..<nat n]" "[]"]
  obtain acc' where "universe_loop ([0..<11140470] @ 11140470 # [11140471..<nat n]) [] =
      universe_loop (11140470 # [11140471..<nat n]) acc'" by blast
  ultimately show ?thesis
    by (simp add: generate_universe_def nutrient_name_too_large)
qed


lemma generate_universe_nonpos: "n \<le> 0 \<Longrightarrow> generate_universe n = Inr []"
  by (simp add: generate_universe_def)

lemma set_order_Nil: "set_order set_iter \<Longrightarrow> set_iter [] = []"
  unfolding set_order_def by (metis distinct.simps(1) set_empty)

lemma setcover_no_foods:
  assumes so: "set_order set_iter" and nf: "num_foods \<le> 0" and nn: "1 \<le> num_nutrients"
  shows "setcover_generate_test_file set_iter num_foods num_nutrients fs r =
     (Inl (if num_nutrients \<le> 11140470 then IndexError else ValueError), fs, r)"
proof (cases "num_nutrients \<le> 11140470")
  case True
  from generate_universe_returns[OF True] obtain us where
    us: "generate_universe num_nutrients = Inr us" and len: "length us = nat num_nutrients"
    by blast
  have ne: "us \<noteq> []" using len nn by auto
  have g: "generate_food_items (map int [0..<nat num_foods]) us mn mx [] r = (Inr [], r)" for mn mx
    using nf by (simp add: sreturn_def)
  let ?unc = "set_iter [n \<leftarrow> remdups us. n \<notin> set (concat (map nutrients []))]"
  from set_order_uncovered[OF so, where universe = us and covered = "{}"]
  have "set (set_iter [n \<leftarrow> remdups us. n \<notin> {}]) = set us" by simp
  then have "set_iter [n \<leftarrow> remdups us. n \<notin> {}] \<noteq> []" using ne by auto
  then obtain n ns where "set_iter [n \<leftarrow> remdups us. n \<notin> {}] = n # ns"
    by (cases "set_iter [n \<leftarrow> remdups us. n \<notin> {}]") auto
  then have e: "ensure_coverage set_iter [] us r = (Inl IndexError, [], r)"
    by (simp add: ensure_coverage_def choice_def)
  show ?thesis using True
    by (simp add: setcover_generate_test_file_def us g e Let_def)
next
  case False
  then have "generate_universe num_nutrients = Inl ValueError"
    by (intro generate_universe_too_large) simp
  with False show ?thesis by (simp add: setcover_generate_test_file_def)
qed

lemma setcover_nothing:
  assumes so: "set_order set_iter" and nf: "num_foods \<le> 0" and nn: "num_nutrients \<le> 0"
  shows "setcover_generate_test_file set_iter num_foods num_nutrients fs r =
     (Inl ZeroDivisionError, fs, r\<lparr>pos := pos r + 1\<rparr>)"
proof -
  have g: "generate_food_items (map int [0..<nat num_foods]) [] mn mx [] r = (Inr [], r)" for mn mx
    using nf by (simp add: sreturn_def)
  have e: "ensure_coverage set_iter [] [] r = (Inr (), [], r)"
    by (simp add: ensure_coverage_def set_order_Nil[OF so])
  have c: "calculate_max_calories [] [] r = (Inl ZeroDivisionError, r\<lparr>pos := pos r + 1\<rparr>)"
    by (simp add: calculate_max_calories_def uniform_def random_def Let_def)
  show ?thesis
    by (simp add: setcover_generate_test_file_def generate_universe_nonpos[OF nn] g e c Let_def)
qed

lemma generate_food_item_empty_universe:
  "\<exists>f r'. generate_food_item food_id [] 3 10 r = (Inr f, r')"
proof -
  obtain cal r1 where c: "randint MIN_CALORIES MAX_CALORIES r = (Inr cal, r1)"
    using randint_total[of MIN_CALORIES MAX_CALORIES r]
    by (auto simp: MIN_CALORIES_def MAX_CALORIES_def)
  obtain k r2 where k: "randint 3 10 r1 = (Inr k, r2)"
    using randint_total[of 3 10 r1] by auto
  from randint_Inr[OF k] have "min k (int (length ([]::string list))) = 0" by simp
  then have s: "sample ([]::string list) (min k (int (length ([]::string list)))) r2 = (Inr [], r2)"
    by (simp add: sample_def)
  obtain ft r3 where t: "choice food_types r2 = (Inr ft, r3)"
    using choice_total[of food_types r2] by (auto simp: food_types_def)
  show ?thesis unfolding generate_food_item_def sbind_Inr sreturn_eq
    using c k s t by blast
qed

lemma generate_food_items_empty_universe:
  "\<exists>foods r'. generate_food_items ids [] 3 10 acc r = (Inr foods, r') \<and>
      length foods = length acc + length ids"
proof (induction ids arbitrary: acc r)
  case Nil
  then show ?case by (simp add: sreturn_def)
next
  case (Cons i ids)
  from generate_food_item_empty_universe[of "i + 1" r] obtain f r1 where
    f: "generate_food_item (i + 1) [] 3 10 r = (Inr f, r1)" by blast
  from Cons.IH[of "acc @ [f]" r1] obtain foods r' where
    "generate_food_items ids [] 3 10 (acc @ [f]) r1 = (Inr foods, r')"
    "length foods = length (acc @ [f]) + length ids" by blast
  with f show ?case by (auto simp: sbind_Inr)
qed

lemma setcover_no_nutrients_ok:
  assumes so: "set_order set_iter" and nf: "1 \<le> num_foods" and nn: "num_nutrients \<le> 0"
  shows "\<exists>foods m r1.
     length foods = nat num_foods \<and>
     setcover_generate_test_file set_iter num_foods num_nutrients fs r =
       (Inr (''setcover_f'' @ str_int num_foods @ ''_n'' @ str_int num_nutrients @ ''.csv'',
             num_foods, num_nutrients),
        fs(DATA_DIR @ ''/'' @ ''setcover_f'' @ str_int num_foods @ ''_n''
              @ str_int num_nutrients @ ''.csv'' \<mapsto>
             Complete \<lparr>file_universe = [], file_max_calories = m, file_foods = foods\<rparr>),
        r1)"
proof -
  have mx: "max MAX_NUTRIENT_UPPER_LIMIT
              (py_int (real_of_int num_nutrients * MAX_NUTRIENT_FRACTION)) = 10"
  proof -
    have "real_of_int num_nutrients * MAX_NUTRIENT_FRACTION \<le> 0"
      using nn by (simp add: MAX_NUTRIENT_FRACTION_def mult_le_0_iff)
    then have "py_int (real_of_int num_nutrients * MAX_NUTRIENT_FRACTION) \<le> 0"
      by (auto simp: py_int_def ceiling_le_zero)
    then show ?thesis by (simp add: MAX_NUTRIENT_UPPER_LIMIT_def)
  qed
  from generate_food_items_empty_universe[of "map int [0..<nat num_foods]" "[]" r]
  obtain foods r1 where
    g: "generate_food_items (map int [0..<nat num_foods]) [] 3 10 [] r = (Inr foods, r1)" and
    len: "length foods = nat num_foods" by auto
  have ne: "foods \<noteq> []" using len nf by auto
  from add_uncovered_total[OF ne, of "[]" r1]
  have e: "ensure_coverage set_iter foods [] r1 = (Inr (), foods, r1)"
    by (simp add: ensure_coverage_def set_order_Nil[OF so])
  obtain m where c: "calculate_max_calories foods [] r1 = (Inr m, r1\<lparr>pos := pos r1 + 1\<rparr>)"
    using ne by (simp add: calculate_max_calories_def uniform_def random_def Let_def)
  have "setcover_generate_test_file set_iter num_foods num_nutrients fs r =
       (Inr (''setcover_f'' @ str_int num_foods @ ''_n'' @ str_int num_nutrients @ ''.csv'',
             num_foods, num_nutrients),
        fs(DATA_DIR @ ''/'' @ ''setcover_f'' @ str_int num_foods @ ''_n''
              @ str_int num_nutrients @ ''.csv'' \<mapsto>
             Complete \<lparr>file_universe = [], file_max_calories = m, file_foods = foods\<rparr>),
        r1\<lparr>pos := pos r1 + 1\<rparr>)"
    unfolding setcover_generate_test_file_def generate_universe_nonpos[OF nn]
      MIN_NUTRIENTS_PER_FOOD_def mx Let_def sum.case g prod.case e c
    by simp
  with len show ?thesis by blast
qed

lemma crew_generate_test_file_run_5_0:
  "crew_generate_test_file 5 0 Map.empty \<lparr>seq = (\<lambda>n. 0), pos = 0\<rparr> =
   (Inr (''crewscheduling_a5_f0.csv'', 5, 5),
    [''data/crewscheduling_a5_f0.csv'' \<mapsto>
       \<lparr>file_airports = [''JFK'', ''LAX'', ''ORD'', ''DFW'', ''DEN''],
        file_flights =
          [\<lparr>departure_airport = ''JFK'', arrival_airport = ''LAX'',
            departure_time = 0, arrival_time = 60\<rparr>,
           \<lparr>departure_airport = ''LAX'', arrival_airport = ''JFK'',
            departure_time = 0, arrival_time = 60\<rparr>,
           \<lparr>departure_airport = ''ORD'', arrival_airport = ''JFK'',
            departure_time = 0, arrival_time = 60\<rparr>,
           \<lparr>departure_airport = ''DFW'', arrival_airport = ''JFK'',
            departure_time = 0, arrival_time = 60\<rparr>,
           \<lparr>departure_airport = ''DEN'', arrival_airport = ''JFK'',
            departure_time = 0, arrival_time = 60\<rparr>]\<rparr>],
    \<lparr>seq = (\<lambda>n. 0), pos = 15\<rparr>)"
  by (simp add: crew_generate_test_file_def rng_eval crew_eval generate_airports_5
      str_int_def str_nat.simps digit_char_def DATA_DIR_def Let_def)

lemma crew_generate_test_file_run_1_1:
  "crew_generate_test_file 1 1 Map.empty \<lparr>seq = (\<lambda>n. 0), pos = 0\<rparr> =
   (Inl IndexError, Map.empty, \<lparr>seq = (\<lambda>n. 0), pos = 1\<rparr>)"
  by (simp add: crew_generate_test_file_def rng_eval crew_eval generate_airports_1)

lemma setcover_generate_test_file_run_1_0:
  "setcover_generate_test_file (\<lambda>xs. xs) 1 0 Map.empty \<lparr>seq = (\<lambda>n. 0), pos = 0\<rparr> =
   (Inr (''setcover_f1_n0.csv'', 1, 0),
    [''data/setcover_f1_n0.csv'' \<mapsto>
       Complete \<lparr>file_universe = [], file_max_calories = 2000,
        file_foods = [\<lparr>name = ''Apple_1'', calories = 2000, nutrients = []\<rparr>]\<rparr>],
    \<lparr>seq = (\<lambda>n. 0), pos = 4\<rparr>)"
  by (simp add: setcover_generate_test_file_def generate_universe_def rng_eval setcover_eval
      MIN_NUTRIENTS_PER_FOOD_def MAX_NUTRIENT_UPPER_LIMIT_def MAX_NUTRIENT_FRACTION_def py_int_def
      ensure_coverage_def calculate_max_calories_def uniform_def random_def DATA_DIR_def)

text \<open>
  C4 as stated fails. Neither script validates a configuration and there is no
  \<^verbatim>\<open>InvalidInput\<close>: five airports with zero flights give a file of five repair
  flights; one airport with one flight raises \<^verbatim>\<open>IndexError\<close> only after a draw;
  one food with zero nutrients gives a complete file.
\<close>

theorem invalid_input_counterexample:
  "crew_generate_test_file 5 0 Map.empty \<lparr>seq = (\<lambda>n. 0), pos = 0\<rparr> =
   (Inr (''crewscheduling_a5_f0.csv'', 5, 5),
    [''data/crewscheduling_a5_f0.csv'' \<mapsto>
       \<lparr>file_airports = [''JFK'', ''LAX'', ''ORD'', ''DFW'', ''DEN''],
        file_flights =
          [\<lparr>departure_airport = ''JFK'', arrival_airport = ''LAX'',
            departure_time = 0, arrival_time = 60\<rparr>,
           \<lparr>departure_airport = ''LAX'', arrival_airport = ''JFK'',
            departure_time = 0, arrival_time = 60\<rparr>,
           \<lparr>departure_airport = ''ORD'', arrival_airport = ''JFK'',
            departure_time = 0, arrival_time = 60\<rparr>,
           \<lparr>departure_airport = ''DFW'', arrival_airport = ''JFK'',
            departure_time = 0, arrival_time = 60\<rparr>,
           \<lparr>departure_airport = ''DEN'', arrival_airport = ''JFK'',
            departure_time = 0, arrival_time = 60\<rparr>]\<rparr>],
    \<lparr>seq = (\<lambda>n. 0), pos = 15\<rparr>) \<and>
   crew_generate_test_file 1 1 Map.empty \<lparr>seq = (\<lambda>n. 0), pos = 0\<rparr> =
   (Inl IndexError, Map.empty, \<lparr>seq = (\<lambda>n. 0), pos = 1\<rparr>) \<and>
   setcover_generate_test_file (\<lambda>xs. xs) 1 0 Map.empty \<lparr>seq = (\<lambda>n. 0), pos = 0\<rparr> =
   (Inr (''setcover_f1_n0.csv'', 1, 0),
    [''data/setcover_f1_n0.csv'' \<mapsto>
       Complete \<lparr>file_universe = [], file_max_calories = 2000,
        file_foods = [\<lparr>name = ''Apple_1'', calories = 2000, nutrients = []\<rparr>]\<rparr>],
    \<lparr>seq = (\<lambda>n. 0), pos = 4\<rparr>)"
  by (intro conjI crew_generate_test_file_run_5_0 crew_generate_test_file_run_1_1
      setcover_generate_test_file_run_1_0)

text \<open>
  C4, as the code has it. Neither generator validates its configuration. A
  configuration of non-positive scale fails only through Python's own
  \<^verbatim>\<open>IndexError\<close> (\<^verbatim>\<open>random.choice\<close> on an empty list), \<^verbatim>\<open>ZeroDivisionError\<close>
  (the mean of no foods) or \<^verbatim>\<open>ValueError\<close> (\<^verbatim>\<open>chr\<close>):
  \<^item> no airports and at least one flight: \<^verbatim>\<open>IndexError\<close> before any draw;
  \<^item> one airport: \<^verbatim>\<open>IndexError\<close>, after one draw when a flight is requested and
    before any draw when none is;
  \<^item> no flights and no airport, or no flights and at least two airports: the file is
    written, with one repair flight per airport;
  \<^item> no foods and at least one nutrient: an error before any draw;
  \<^item> no foods and no nutrients: \<^verbatim>\<open>ZeroDivisionError\<close> after one draw;
  \<^item> at least one food and no nutrients: the file is written, with an empty universe
    and one food per requested food.
  Whenever the crew generator raises, and whenever the set-cover generator raises on a
  configuration without foods or without nutrients, the file system is as it was: no
  file is created or changed.
\<close>

theorem invalid_scale_behaviour:
  assumes "set_order set_iter"
  shows
    "(num_airports \<le> 0 \<and> 1 \<le> num_flights \<longrightarrow>
        crew_generate_test_file num_airports num_flights cfs r = (Inl IndexError, cfs, r)) \<and>
     (1 \<le> num_flights \<longrightarrow>
        crew_generate_test_file 1 num_flights cfs r
          = (Inl IndexError, cfs, r\<lparr>pos := pos r + 1\<rparr>)) \<and>
     (num_flights \<le> 0 \<longrightarrow>
        crew_generate_test_file 1 num_flights cfs r = (Inl IndexError, cfs, r)) \<and>
     (num_flights \<le> 0 \<and> (num_airports \<le> 0 \<or> 2 \<le> num_airports) \<longrightarrow>
        (\<exists>flights r1.
           map departure_airport flights = generate_airports num_airports \<and>
           crew_generate_test_file num_airports num_flights cfs r =
             (Inr (''crewscheduling_a'' @ str_int num_airports @ ''_f''
                     @ str_int num_flights @ ''.csv'',
                   num_airports, int (length flights)),
              cfs(DATA_DIR @ ''/'' @ ''crewscheduling_a'' @ str_int num_airports @ ''_f''
                    @ str_int num_flights @ ''.csv'' \<mapsto>
                   \<lparr>file_airports = generate_airports num_airports,
                    file_flights = flights\<rparr>),
              r1))) \<and>
     (num_foods \<le> 0 \<and> 1 \<le> num_nutrients \<longrightarrow>
        setcover_generate_test_file set_iter num_foods num_nutrients sfs r =
          (Inl (if num_nutrients \<le> 11140470 then IndexError else ValueError), sfs, r)) \<and>
     (num_foods \<le> 0 \<and> num_nutrients \<le> 0 \<longrightarrow>
        setcover_generate_test_file set_iter num_foods num_nutrients sfs r =
          (Inl ZeroDivisionError, sfs, r\<lparr>pos := pos r + 1\<rparr>)) \<and>
     (1 \<le> num_foods \<and> num_nutrients \<le> 0 \<longrightarrow>
        (\<exists>foods m r1.
           length foods = nat num_foods \<and>
           setcover_generate_test_file set_iter num_foods num_nutrients sfs r =
             (Inr (''setcover_f'' @ str_int num_foods @ ''_n'' @ str_int num_nutrients
                     @ ''.csv'',
                   num_foods, num_nutrients),
              sfs(DATA_DIR @ ''/'' @ ''setcover_f'' @ str_int num_foods @ ''_n''
                    @ str_int num_nutrients @ ''.csv'' \<mapsto>
                   Complete \<lparr>file_universe = [], file_max_calories = m,
                             file_foods = foods\<rparr>),
              r1))) \<and>
     (\<forall>e fs1 r1. crew_generate_test_file num_airports num_flights cfs r = (Inl e, fs1, r1)
        \<longrightarrow> fs1 = cfs) \<and>
     (num_foods \<le> 0 \<or> num_nutrients \<le> 0 \<longrightarrow>
        (\<forall>e fs1 r1. setcover_generate_test_file set_iter num_foods num_nutrients sfs r
            = (Inl e, fs1, r1) \<longrightarrow> fs1 = sfs))"
proof -
  have 1: "num_airports \<le> 0 \<and> 1 \<le> num_flights \<longrightarrow>
        crew_generate_test_file num_airports num_flights cfs r = (Inl IndexError, cfs, r)"
    using crew_no_airports by blast
  have 2: "1 \<le> num_flights \<longrightarrow>
        crew_generate_test_file 1 num_flights cfs r
          = (Inl IndexError, cfs, r\<lparr>pos := pos r + 1\<rparr>)"
    using crew_one_airport_flights by blast
  have 3: "num_flights \<le> 0 \<longrightarrow>
        crew_generate_test_file 1 num_flights cfs r = (Inl IndexError, cfs, r)"
    using crew_one_airport_no_flights by blast
  have 4: "num_flights \<le> 0 \<and> (num_airports \<le> 0 \<or> 2 \<le> num_airports) \<longrightarrow>
        (\<exists>flights r1.
           map departure_airport flights = generate_airports num_airports \<and>
           crew_generate_test_file num_airports num_flights cfs r =
             (Inr (''crewscheduling_a'' @ str_int num_airports @ ''_f''
                     @ str_int num_flights @ ''.csv'',
                   num_airports, int (length flights)),
              cfs(DATA_DIR @ ''/'' @ ''crewscheduling_a'' @ str_int num_airports @ ''_f''
                    @ str_int num_flights @ ''.csv'' \<mapsto>
                   \<lparr>file_airports = generate_airports num_airports,
                    file_flights = flights\<rparr>),
              r1))"
    using crew_no_flights_ok[of num_flights num_airports cfs r] by blast
  have 5: "num_foods \<le> 0 \<and> 1 \<le> num_nutrients \<longrightarrow>
        setcover_generate_test_file set_iter num_foods num_nutrients sfs r =
          (Inl (if num_nutrients \<le> 11140470 then IndexError else ValueError), sfs, r)"
    using setcover_no_foods[OF assms] by blast
  have 6: "num_foods \<le> 0 \<and> num_nutrients \<le> 0 \<longrightarrow>
        setcover_generate_test_file set_iter num_foods num_nutrients sfs r =
          (Inl ZeroDivisionError, sfs, r\<lparr>pos := pos r + 1\<rparr>)"
    using setcover_nothing[OF assms] by blast
  have 7: "1 \<le> num_foods \<and> num_nutrients \<le> 0 \<longrightarrow>
        (\<exists>foods m r1.
           length foods = nat num_foods \<and>
           setcover_generate_test_file set_iter num_foods num_nutrients sfs r =
             (Inr (''setcover_f'' @ str_int num_foods @ ''_n'' @ str_int num_nutrients
                     @ ''.csv'',
                   num_foods, num_nutrients),
              sfs(DATA_DIR @ ''/'' @ ''setcover_f'' @ str_int num_foods @ ''_n''
                    @ str_int num_nutrients @ ''.csv'' \<mapsto>
                   Complete \<lparr>file_universe = [], file_max_calories = m,
                             file_foods = foods\<rparr>),
              r1))"
    using setcover_no_nutrients_ok[OF assms, of num_foods num_nutrients sfs r] by blast
  have 8: "\<forall>e fs1 r1. crew_generate_test_file num_airports num_flights cfs r = (Inl e, fs1, r1)
        \<longrightarrow> fs1 = cfs"
    using crew_error_keeps_files by blast
  have 9: "num_foods \<le> 0 \<or> num_nutrients \<le> 0 \<longrightarrow>
        (\<forall>e fs1 r1. setcover_generate_test_file set_iter num_foods num_nutrients sfs r
            = (Inl e, fs1, r1) \<longrightarrow> fs1 = sfs)"
  proof (intro impI allI)
    fix e fs1 r1
    assume scale: "num_foods \<le> 0 \<or> num_nutrients \<le> 0"
      and run: "setcover_generate_test_file set_iter num_foods num_nutrients sfs r
                  = (Inl e, fs1, r1)"
    show "fs1 = sfs"
    proof (cases "num_nutrients \<le> 0")
      case True
      then have "generate_universe num_nutrients = Inr []" by (rule generate_universe_nonpos)
      with setcover_error_files[OF run] show ?thesis by auto
    next
      case False
      with scale have nf: "num_foods \<le> 0" and nn: "1 \<le> num_nutrients" by simp_all
      from setcover_no_foods[OF assms nf nn, of sfs r] run show ?thesis by simp
    qed
  qed
  from 1 2 3 4 5 6 7 8 9 show ?thesis by (intro conjI)
qed

theorem invalid_scale_behaviour_witness:
  "crew_generate_test_file 0 3 Map.empty \<lparr>seq = (\<lambda>n. 0), pos = 0\<rparr>
     = (Inl IndexError, Map.empty, \<lparr>seq = (\<lambda>n. 0), pos = 0\<rparr>) \<and>
   crew_generate_test_file 1 3 Map.empty \<lparr>seq = (\<lambda>n. 0), pos = 0\<rparr>
     = (Inl IndexError, Map.empty, \<lparr>seq = (\<lambda>n. 0), pos = 1\<rparr>) \<and>
   crew_generate_test_file 1 0 Map.empty \<lparr>seq = (\<lambda>n. 0), pos = 0\<rparr>
     = (Inl IndexError, Map.empty, \<lparr>seq = (\<lambda>n. 0), pos = 0\<rparr>) \<and>
   (\<exists>flights r1.
      map departure_airport flights = generate_airports 2 \<and>
      crew_generate_test_file 2 0 Map.empty \<lparr>seq = (\<lambda>n. 0), pos = 0\<rparr> =
        (Inr (''crewscheduling_a'' @ str_int 2 @ ''_f'' @ str_int 0 @ ''.csv'',
              2, int (length flights)),
         [DATA_DIR @ ''/'' @ ''crewscheduling_a'' @ str_int 2 @ ''_f'' @ str_int 0 @ ''.csv''
            \<mapsto> \<lparr>file_airports = generate_airports 2, file_flights = flights\<rparr>],
         r1)) \<and>
   setcover_generate_test_file (\<lambda>xs. xs) 0 2 Map.empty \<lparr>seq = (\<lambda>n. 0), pos = 0\<rparr>
     = (Inl IndexError, Map.empty, \<lparr>seq = (\<lambda>n. 0), pos = 0\<rparr>) \<and>
   setcover_generate_test_file (\<lambda>xs. xs) 0 0 Map.empty \<lparr>seq = (\<lambda>n. 0), pos = 0\<rparr>
     = (Inl ZeroDivisionError, Map.empty, \<lparr>seq = (\<lambda>n. 0), pos = 1\<rparr>) \<and>
   (\<exists>foods m r1.
      length foods = nat 1 \<and>
      setcover_generate_test_file (\<lambda>xs. xs) 1 0 Map.empty \<lparr>seq = (\<lambda>n. 0), pos = 0\<rparr> =
        (Inr (''setcover_f'' @ str_int 1 @ ''_n'' @ str_int 0 @ ''.csv'', 1, 0),
         [DATA_DIR @ ''/'' @ ''setcover_f'' @ str_int 1 @ ''_n'' @ str_int 0 @ ''.csv''
            \<mapsto> Complete \<lparr>file_universe = [], file_max_calories = m, file_foods = foods\<rparr>],
         r1))"
proof -
  note a = invalid_scale_behaviour[OF set_order_id, where num_airports = 0 and num_flights = 3
      and num_foods = 0 and num_nutrients = 2 and cfs = Map.empty and sfs = Map.empty
      and r = "\<lparr>seq = (\<lambda>n. 0), pos = 0\<rparr>"]
  note b = invalid_scale_behaviour[OF set_order_id, where num_airports = 2 and num_flights = 0
      and num_foods = 0 and num_nutrients = 0 and cfs = Map.empty and sfs = Map.empty
      and r = "\<lparr>seq = (\<lambda>n. 0), pos = 0\<rparr>"]
  note c = invalid_scale_behaviour[OF set_order_id, where num_airports = 2 and num_flights = 0
      and num_foods = 1 and num_nutrients = 0 and cfs = Map.empty and sfs = Map.empty
      and r = "\<lparr>seq = (\<lambda>n. 0), pos = 0\<rparr>"]
  from a have 1: "crew_generate_test_file 0 3 Map.empty \<lparr>seq = (\<lambda>n. 0), pos = 0\<rparr>
     = (Inl IndexError, Map.empty, \<lparr>seq = (\<lambda>n. 0), pos = 0\<rparr>)" by simp
  from a have 2: "crew_generate_test_file 1 3 Map.empty \<lparr>seq = (\<lambda>n. 0), pos = 0\<rparr>
     = (Inl IndexError, Map.empty, \<lparr>seq = (\<lambda>n. 0), pos = 1\<rparr>)" by simp
  from b have 3: "crew_generate_test_file 1 0 Map.empty \<lparr>seq = (\<lambda>n. 0), pos = 0\<rparr>
     = (Inl IndexError, Map.empty, \<lparr>seq = (\<lambda>n. 0), pos = 0\<rparr>)" by simp
  from b have 4: "\<exists>flights r1.
      map departure_airport flights = generate_airports 2 \<and>
      crew_generate_test_file 2 0 Map.empty \<lparr>seq = (\<lambda>n. 0), pos = 0\<rparr> =
        (Inr (''crewscheduling_a'' @ str_int 2 @ ''_f'' @ str_int 0 @ ''.csv'',
              2, int (length flights)),
         [DATA_DIR @ ''/'' @ ''crewscheduling_a'' @ str_int 2 @ ''_f'' @ str_int 0 @ ''.csv''
            \<mapsto> \<lparr>file_airports = generate_airports 2, file_flights = flights\<rparr>],
         r1)" by (elim conjE) simp
  from a have 5: "setcover_generate_test_file (\<lambda>xs. xs) 0 2 Map.empty \<lparr>seq = (\<lambda>n. 0), pos = 0\<rparr>
     = (Inl IndexError, Map.empty, \<lparr>seq = (\<lambda>n. 0), pos = 0\<rparr>)" by simp
  from b have 6: "setcover_generate_test_file (\<lambda>xs. xs) 0 0 Map.empty \<lparr>seq = (\<lambda>n. 0), pos = 0\<rparr>
     = (Inl ZeroDivisionError, Map.empty, \<lparr>seq = (\<lambda>n. 0), pos = 1\<rparr>)" by simp
  from c have 7: "\<exists>foods m r1.
      length foods = nat 1 \<and>
      setcover_generate_test_file (\<lambda>xs. xs) 1 0 Map.empty \<lparr>seq = (\<lambda>n. 0), pos = 0\<rparr> =
        (Inr (''setcover_f'' @ str_int 1 @ ''_n'' @ str_int 0 @ ''.csv'', 1, 0),
         [DATA_DIR @ ''/'' @ ''setcover_f'' @ str_int 1 @ ''_n'' @ str_int 0 @ ''.csv''
            \<mapsto> Complete \<lparr>file_universe = [], file_max_calories = m, file_foods = foods\<rparr>],
         r1)" by (elim conjE) simp
  from 1 2 3 4 5 6 7 show ?thesis by (intro conjI)
qed

section \<open>Names that cannot be written\<close>

text \<open>
  Airport codes and decimal numbers are ASCII, so the crew-scheduling file is always
  written whole. Nutrient names are not: the name at index 552310 carries
  \<^verbatim>\<open>chr(0xD800)\<close>, a surrogate. A set-cover configuration with at least one food
  and from 552311 to 11140470 nutrients is generated in memory, its file is opened,
  and the first write raises \<^verbatim>\<open>UnicodeEncodeError\<close>: the file is left empty.
\<close>

lemma has_surrogate_lead: "has_surrogate s \<Longrightarrow> \<exists>c \<in> set s. of_char c = (237::nat)"
  by (induction s rule: has_surrogate.induct) auto

lemma str_nat_digits: "set (str_nat n) \<subseteq> set ''0123456789''"
proof (induction n rule: str_nat.induct)
  case (1 n)
  have d: "digit_char k \<in> set ''0123456789''" if "k < 10" for k
    unfolding digit_char_def using that by (intro nth_mem) simp
  show ?case
  proof (cases "n < 10")
    case True
    with d[of n] show ?thesis by (subst str_nat.simps) simp
  next
    case False
    have "n mod 10 < 10" by simp
    from d[OF this] 1[OF False] False show ?thesis by (subst str_nat.simps) simp
  qed
qed

lemma str_nat_ascii: "c \<in> set (str_nat n) \<Longrightarrow> of_char c \<noteq> (237::nat)"
  using str_nat_digits[of n] by auto

lemma airport_codes_ascii: "\<forall>a \<in> set airport_codes. \<forall>c \<in> set a. of_char c \<noteq> (237::nat)"
  by (simp add: airport_codes_def)

lemma generate_airports_ascii: "\<forall>a \<in> set (generate_airports n). \<not> has_surrogate a"
proof
  fix a assume "a \<in> set (generate_airports n)"
  then have "a \<in> (\<lambda>i. if i < length airport_codes then airport_codes ! i
                         else ''AP'' @ fmt_02d (i + 1)) ` set [0..<nat n]"
    unfolding generate_airports_def set_map .
  then obtain i where a: "a = (if i < length airport_codes then airport_codes ! i
                               else ''AP'' @ fmt_02d (i + 1))"
    by (rule imageE)
  have "\<forall>c \<in> set a. of_char c \<noteq> (237::nat)"
  proof (cases "i < length airport_codes")
    case True
    then have "a \<in> set airport_codes" using a by simp
    with airport_codes_ascii show ?thesis by blast
  next
    case False
    then have "a = ''AP'' @ fmt_02d (i + 1)" using a by simp
    then show ?thesis using str_nat_ascii by (auto simp: fmt_02d_def Let_def)
  qed
  with has_surrogate_lead[of a] show "\<not> has_surrogate a" by blast
qed

lemma generate_food_item_total:
  assumes "3 \<le> mx"
  shows "\<exists>f r'. generate_food_item food_id universe 3 mx r = (Inr f, r')"
proof -
  obtain cal r1 where c: "randint MIN_CALORIES MAX_CALORIES r = (Inr cal, r1)"
    using randint_total[of MIN_CALORIES MAX_CALORIES r]
    by (auto simp: MIN_CALORIES_def MAX_CALORIES_def)
  obtain v r2 where v: "randint 3 mx r1 = (Inr v, r2)"
    using randint_total[of 3 mx r1] assms by auto
  let ?k = "min v (int (length universe))"
  from randint_Inr[OF v] have k: "0 \<le> ?k" "?k \<le> int (length universe)" by auto
  obtain xs r3 where sp: "sample_pool universe (nat ?k) r2 = (xs, r3)"
    by (cases "sample_pool universe (nat ?k) r2") auto
  have s: "sample universe ?k r2 = (Inr xs, r3)"
    using k sp by (simp add: sample_def)
  obtain ft r4 where t: "choice food_types r3 = (Inr ft, r4)"
    using choice_total[of food_types r3] by (auto simp: food_types_def)
  show ?thesis unfolding generate_food_item_def sbind_Inr sreturn_eq
    using c v s t by blast
qed

lemma generate_food_items_total:
  assumes "3 \<le> mx"
  shows "\<exists>foods r'. generate_food_items ids universe 3 mx acc r = (Inr foods, r') \<and>
      length foods = length acc + length ids"
proof (induction ids arbitrary: acc r)
  case Nil
  then show ?case by (simp add: sreturn_def)
next
  case (Cons i ids)
  from generate_food_item_total[OF assms, of "i + 1" universe r] obtain f r1 where
    f: "generate_food_item (i + 1) universe 3 mx r = (Inr f, r1)" by blast
  from Cons.IH[of "acc @ [f]" r1] obtain foods r' where
    "generate_food_items ids universe 3 mx (acc @ [f]) r1 = (Inr foods, r')"
    "length foods = length (acc @ [f]) + length ids" by blast
  with f show ?case by (auto simp: sbind_Inr)
qed

lemma nutrient_name_surrogate:
  "nutrient_name 552310 = Inr (''Vitamin'' @ utf8 55296 @ ''1'')"
proof -
  have "(552310::nat) < 11140470" by simp
  from nutrient_name_eq[OF this] show ?thesis
    by (simp add: prefixes_def str_nat.simps digit_char_def)
qed

lemma has_surrogate_D800: "has_surrogate (''Vitamin'' @ utf8 55296 @ ''1'')"
  by (simp add: utf8_def)

lemma generate_universe_surrogate:
  assumes "552311 \<le> n" "n \<le> 11140470"
  shows "\<exists>us. generate_universe n = Inr us \<and> list_ex has_surrogate us"
proof -
  from generate_universe_returns[OF assms(2)] obtain us where
    us: "generate_universe n = Inr us" and len: "length us = nat n" by blast
  from us have ul: "universe_loop [0..<nat n] [] = Inr us" by (simp add: generate_universe_def)
  have i: "552310 < nat n" using assms(1) by linarith
  then have "552310 < length [0..<nat n]" by simp
  with universe_loop_Inr[OF ul] have "nutrient_name ([0..<nat n] ! 552310) = Inr (us ! (length ([]::string list) + 552310))"
    by blast
  then have "nutrient_name 552310 = Inr (us ! 552310)" using i by simp
  then have "us ! 552310 = ''Vitamin'' @ utf8 55296 @ ''1''"
    unfolding nutrient_name_surrogate by simp
  moreover have "us ! 552310 \<in> set us" using i len by (intro nth_mem) simp
  ultimately have "\<exists>x \<in> set us. has_surrogate x" using has_surrogate_D800 by metis
  then show ?thesis using us by (simp add: list_ex_iff)
qed

lemma calculate_max_calories_total:
  "food_items \<noteq> [] \<Longrightarrow> \<exists>m r'. calculate_max_calories food_items universe r = (Inr m, r')"
  by (simp add: calculate_max_calories_def uniform_def random_def Let_def)

lemma setcover_write_fails:
  assumes "1 \<le> num_foods" "552311 \<le> num_nutrients" "num_nutrients \<le> 11140470"
  shows "\<exists>r'. setcover_generate_test_file set_iter num_foods num_nutrients fs r =
     (Inl UnicodeEncodeError,
      fs(DATA_DIR @ ''/'' @ ''setcover_f'' @ str_int num_foods @ ''_n''
           @ str_int num_nutrients @ ''.csv'' \<mapsto> Truncated),
      r')"
proof -
  from generate_universe_surrogate[OF assms(2,3)] obtain us where
    us: "generate_universe num_nutrients = Inr us" and sur: "list_ex has_surrogate us" by blast
  define mx where "mx = max MAX_NUTRIENT_UPPER_LIMIT
                          (py_int (real_of_int num_nutrients * MAX_NUTRIENT_FRACTION))"
  have mx3: "3 \<le> mx" unfolding mx_def by (simp add: MAX_NUTRIENT_UPPER_LIMIT_def)
  from generate_food_items_total[OF mx3, of "map int [0..<nat num_foods]" us "[]" r]
  obtain foods r1 where
    g: "generate_food_items (map int [0..<nat num_foods]) us 3 mx [] r = (Inr foods, r1)" and
    len: "length foods = nat num_foods" by auto
  have ne: "foods \<noteq> []" using len assms(1) by auto
  from add_uncovered_total[OF ne] obtain foods' r2 where
    e: "ensure_coverage set_iter foods us r1 = (Inr (), foods', r2)"
    unfolding ensure_coverage_def Let_def by blast
  have "length foods' = length foods"
    using e add_uncovered_shape unfolding ensure_coverage_def Let_def by blast
  then have ne': "foods' \<noteq> []" using ne by auto
  from calculate_max_calories_total[OF ne', of us r2] obtain m r3 where
    c: "calculate_max_calories foods' us r2 = (Inr m, r3)" by blast
  have "setcover_generate_test_file set_iter num_foods num_nutrients fs r =
     (Inl UnicodeEncodeError,
      fs(DATA_DIR @ ''/'' @ ''setcover_f'' @ str_int num_foods @ ''_n''
           @ str_int num_nutrients @ ''.csv'' \<mapsto> Truncated),
      r3)"
    unfolding setcover_generate_test_file_def us MIN_NUTRIENTS_PER_FOOD_def mx_def[symmetric]
      Let_def sum.case g prod.case e c
    using sur by simp
  then show ?thesis by blast
qed

section \<open>Reproducibility of the batch\<close>
































section \<open>The written files\<close>

text \<open>
  The invariants of the repairs, read off the file that \<^verbatim>\<open>generate_test_file\<close>
  writes: every airport of the header departs in some flight row, and the union of
  the food rows' nutrients is the universe of the header.
\<close>

lemma connect_loop_covers:
  "connect_loop as airports hdep flights r = (Inr u, flights', r') \<Longrightarrow>
   \<forall>a \<in> set as. a \<in> hdep \<or> (\<exists>f \<in> set flights'. departure_airport f = a)"
proof (induction as arbitrary: flights r)
  case Nil
  then show ?case by simp
next
  case (Cons a as)
  show ?case
  proof (cases "a \<in> hdep")
    case True
    with Cons.prems have "connect_loop as airports hdep flights r = (Inr u, flights', r')" by simp
    from Cons.IH[OF this] True show ?thesis by simp
  next
    case False
    with Cons.prems obtain f r1 where
      f: "repair_flight airports a r = (Inr f, r1)" and
      rec: "connect_loop as airports hdep (flights @ [f]) r1 = (Inr u, flights', r')"
      by (auto split: prod.splits sum.splits)
    from repair_flight_Inr[OF f] have da: "departure_airport f = a" by simp
    from connect_loop_appends[OF rec] have "f \<in> set flights'" by auto
    with da have "\<exists>g \<in> set flights'. departure_airport g = a" by blast
    with Cons.IH[OF rec] show ?thesis by simp
  qed
qed

lemma generated_file_every_airport_departs:
  assumes "crew_generate_test_file num_airports num_flights fs r = (Inr (filename, a, n), fs', r')"
  shows "\<exists>file. fs' (DATA_DIR @ ''/'' @ filename) = Some file \<and>
     file_airports file = generate_airports num_airports \<and>
     (\<forall>a \<in> set (file_airports file). \<exists>f \<in> set (file_flights file). departure_airport f = a)"
proof -
  let ?airports = "generate_airports num_airports"
  from assms obtain sampled r1 flights u where
    e: "ensure_connectivity ?airports sampled r1 = (Inr u, flights, r')" and
    fs': "fs' = fs(DATA_DIR @ ''/'' @ filename \<mapsto>
             \<lparr>file_airports = ?airports, file_flights = flights\<rparr>)"
    unfolding crew_generate_test_file_def Let_def
    by (auto split: prod.splits sum.splits)
  let ?hd = "set (map departure_airport sampled)"
  from e have c: "connect_loop ?airports ?airports ?hd sampled r1 = (Inr u, flights, r')"
    by (simp add: ensure_connectivity_def)
  from connect_loop_appends[OF c] obtain added where fl: "flights = sampled @ added" by blast
  have "\<forall>a \<in> set ?airports. \<exists>f \<in> set flights. departure_airport f = a"
  proof
    fix a assume "a \<in> set ?airports"
    with connect_loop_covers[OF c]
    have "a \<in> ?hd \<or> (\<exists>f \<in> set flights. departure_airport f = a)" by blast
    then show "\<exists>f \<in> set flights. departure_airport f = a"
      using fl by auto
  qed
  then show ?thesis unfolding fs' by simp
qed

lemma generated_file_covers_universe:
  assumes so: "set_order set_iter"
    and run: "setcover_generate_test_file set_iter num_foods num_nutrients fs r
                = (Inr (filename, a, b), fs', r')"
  shows "\<exists>file. fs' (DATA_DIR @ ''/'' @ filename) = Some (Complete file) \<and>
     generate_universe num_nutrients = Inr (file_universe file) \<and>
     (\<Union>f \<in> set (file_foods file). set (nutrients f)) = set (file_universe file)"
proof -
  from run obtain universe where gu: "generate_universe num_nutrients = Inr universe"
    unfolding setcover_generate_test_file_def by (auto split: sum.splits)
  from run gu obtain mn mx sampled r1 u foods r2 m where
    g: "generate_food_items (map int [0..<nat num_foods]) universe mn mx [] r = (Inr sampled, r1)" and
    e: "ensure_coverage set_iter sampled universe r1 = (Inr u, foods, r2)" and
    fs': "fs' = fs(DATA_DIR @ ''/'' @ filename \<mapsto>
             Complete \<lparr>file_universe = universe, file_max_calories = m, file_foods = foods\<rparr>)"
    unfolding setcover_generate_test_file_def Let_def
    by (auto split: prod.splits sum.splits if_splits)
  have "\<forall>f \<in> set sampled. set (nutrients f) \<subseteq> set universe \<and>
          (distinct universe \<longrightarrow> distinct (nutrients f))"
    by (rule generate_food_items_Inr[OF g]) simp
  then have sub: "\<forall>f \<in> set sampled. set (nutrients f) \<subseteq> set universe" by blast
  from ensure_coverage_union[OF so sub e] gu show ?thesis unfolding fs' by simp
qed

end
